theory Spec2Isabelle
  imports Main "HOL-Library.Sublist" "HOL-Library.AList"
begin

section \<open>Rate limiter (package ratelimit)\<close>

text \<open>
  A \<open>time.Time\<close> is modelled as an integer count of nanoseconds on the clock that
  \<open>time.Now()\<close> reads, a \<open>time.Duration\<close> as an integer count of nanoseconds.
  \<open>t.After(u)\<close> is \<open>u < t\<close> and \<open>t.Add(-d)\<close> is \<open>t - d\<close>. The reading of the clock
  is a parameter \<open>now\<close> of every operation that calls \<open>time.Now()\<close>.
\<close>

type_synonym Time = int
type_synonym Duration = int

record MemoryRateLimiter =
  requests :: "string \<rightharpoonup> Time list"
  limit :: int
  window :: Duration

definition NewMemoryRateLimiter :: "int \<Rightarrow> Duration \<Rightarrow> MemoryRateLimiter" where
  "NewMemoryRateLimiter lim win = \<lparr>requests = Map.empty, limit = lim, window = win\<rparr>"

text \<open>Reading a missing key of a Go map of slices gives the nil slice, of length 0.\<close>

definition slice_at :: "(string \<rightharpoonup> Time list) \<Rightarrow> string \<Rightarrow> Time list" where
  "slice_at m key = (case m key of None \<Rightarrow> [] | Some tms \<Rightarrow> tms)"

definition Allow :: "MemoryRateLimiter \<Rightarrow> string \<Rightarrow> Time \<Rightarrow> bool \<times> MemoryRateLimiter" where
  "Allow r key now =
     (let windowStart = now - window r;
          pruned = (case requests r key of
                      Some tms \<Rightarrow> (requests r)(key \<mapsto> filter (\<lambda>t. windowStart < t) tms)
                    | None \<Rightarrow> (requests r)(key \<mapsto> []))
      in if limit r \<le> int (length (slice_at pruned key))
         then (False, r\<lparr>requests := pruned\<rparr>)
         else (True, r\<lparr>requests := pruned(key \<mapsto> slice_at pruned key @ [now])\<rparr>))"

definition Reset :: "MemoryRateLimiter \<Rightarrow> string \<Rightarrow> MemoryRateLimiter" where
  "Reset r key = r\<lparr>requests := (requests r)(key := None)\<rparr>"

text \<open>A sequence of \<open>Allow\<close> calls on one key, at the given clock readings.\<close>

fun AllowSeq :: "MemoryRateLimiter \<Rightarrow> string \<Rightarrow> Time list \<Rightarrow> bool list \<times> MemoryRateLimiter" where
  "AllowSeq r key [] = ([], r)"
| "AllowSeq r key (t # ts) =
     (case Allow r key t of (ok, r1) \<Rightarrow>
        (case AllowSeq r1 key ts of (oks, r2) \<Rightarrow> (ok # oks, r2)))"

subsection \<open>The middleware that owns the limiters\<close>

record RateLimitRule =
  Requests :: int
  Window :: Duration

record RateLimitConfig =
  Enabled :: bool
  GlobalLimit :: int
  IPLimit :: RateLimitRule
  UserLimit :: RateLimitRule
  APILimit :: "string \<rightharpoonup> RateLimitRule"

record RateLimitMiddleware =
  config :: RateLimitConfig
  limiters :: "string \<rightharpoonup> MemoryRateLimiter"
  globalLimiter :: "MemoryRateLimiter option"

definition Minute :: Duration where
  "Minute = 60 * 1000000000"

definition NewRateLimitMiddleware :: "RateLimitConfig \<Rightarrow> RateLimitMiddleware" where
  "NewRateLimitMiddleware cfg =
     (if Enabled cfg then
        (let l0 = Map.empty;
             l1 = (if 0 < Requests (IPLimit cfg)
                   then l0(''ip'' \<mapsto> NewMemoryRateLimiter (Requests (IPLimit cfg)) (Window (IPLimit cfg)))
                   else l0);
             l2 = (if 0 < Requests (UserLimit cfg)
                   then l1(''user'' \<mapsto> NewMemoryRateLimiter (Requests (UserLimit cfg)) (Window (UserLimit cfg)))
                   else l1)
         in \<lparr>config = cfg, limiters = l2,
             globalLimiter = Some (NewMemoryRateLimiter (GlobalLimit cfg) Minute)\<rparr>)
      else \<lparr>config = cfg, limiters = Map.empty, globalLimiter = None\<rparr>)"

text \<open>
  \<open>GlobalRateLimit\<close>: the handler either lets the request through (\<open>True\<close>, \<open>c.Next()\<close>)
  or answers 429 and aborts (\<open>False\<close>).
\<close>

definition GlobalRateLimit :: "RateLimitMiddleware \<Rightarrow> Time \<Rightarrow> bool \<times> RateLimitMiddleware" where
  "GlobalRateLimit m now =
     (case globalLimiter m of
        None \<Rightarrow> (True, m)
      | Some g \<Rightarrow>
          if \<not> Enabled (config m) then (True, m)
          else (case Allow g ''global'' now of
                  (ok, g') \<Rightarrow> (ok, m\<lparr>globalLimiter := Some g'\<rparr>)))"

definition ResetRateLimit :: "RateLimitMiddleware \<Rightarrow> string \<Rightarrow> RateLimitMiddleware" where
  "ResetRateLimit m key =
     (let m1 = (case limiters m key of
                  Some limiter \<Rightarrow> m\<lparr>limiters := (limiters m)(key \<mapsto> Reset limiter key)\<rparr>
                | None \<Rightarrow> m)
      in case globalLimiter m1 of
           Some g \<Rightarrow> m1\<lparr>globalLimiter := Some (Reset g ''global'')\<rparr>
         | None \<Rightarrow> m1)"

text \<open>
  The configuration of the repository's own reset test (global limit 1), and the state of
  the middleware after its first two requests: one admitted at time 0, one rejected at time 1.
\<close>

definition reset_test_config :: RateLimitConfig where
  "reset_test_config =
     \<lparr>Enabled = True, GlobalLimit = 1,
      IPLimit = \<lparr>Requests = 0, Window = 0\<rparr>, UserLimit = \<lparr>Requests = 0, Window = 0\<rparr>,
      APILimit = Map.empty\<rparr>"

definition reset_test_state :: RateLimitMiddleware where
  "reset_test_state =
     snd (GlobalRateLimit (snd (GlobalRateLimit (NewRateLimitMiddleware reset_test_config) 0)) 1)"

section \<open>Route matcher (package proxy, the route parser)\<close>

text \<open>
  A Go string is a sequence of bytes, here a \<open>string\<close> (a list of 8-bit characters).
  The functions of the Go standard library that the matcher calls are written out first:
  \<open>strings.HasPrefix\<close>, \<open>strings.HasSuffix\<close>, \<open>strings.TrimPrefix\<close>,
  \<open>strings.ReplaceAll\<close>, \<open>strings.EqualFold\<close> and \<open>regexp.QuoteMeta\<close>.
\<close>

abbreviation backslash :: char where
  "backslash \<equiv> CHR 0x5C"

abbreviation newline :: char where
  "newline \<equiv> CHR 0x0A"

definition HasPrefix :: "string \<Rightarrow> string \<Rightarrow> bool" where
  "HasPrefix s pre = prefix pre s"

definition HasSuffix :: "string \<Rightarrow> string \<Rightarrow> bool" where
  "HasSuffix s suf = suffix suf s"

definition TrimPrefix :: "string \<Rightarrow> string \<Rightarrow> string" where
  "TrimPrefix s pre = (if HasPrefix s pre then drop (length pre) s else s)"

text \<open>
  \<open>strings.ReplaceAll s old new\<close> replaces the non-overlapping occurrences of \<open>old\<close>,
  scanning from the left; for an empty \<open>old\<close> it inserts \<open>new\<close> before every character
  and at the end.
\<close>

function ReplaceAll :: "string \<Rightarrow> string \<Rightarrow> string \<Rightarrow> string" where
  "ReplaceAll s old new =
     (if old = [] then concat (map (\<lambda>c. new @ [c]) s) @ new
      else if s = [] then []
      else if prefix old s then new @ ReplaceAll (drop (length old) s) old new
      else hd s # ReplaceAll (tl s) old new)"
  by pat_completeness auto
termination
  by (relation "measure (\<lambda>(s, old, new). length s)") auto

declare ReplaceAll.simps [simp del]

text \<open>\<open>regexp.QuoteMeta\<close> puts a backslash before each of the bytes \<open>\.+*?()|[]{}^$\<close>.\<close>

definition special :: "char \<Rightarrow> bool" where
  "special b = (b \<in> set (backslash # ''.+*?()|[]{}^$''))"

primrec QuoteMeta :: "string \<Rightarrow> string" where
  "QuoteMeta [] = []"
| "QuoteMeta (b # s) = (if special b then backslash # b # QuoteMeta s else b # QuoteMeta s)"

text \<open>
  \<open>strings.EqualFold\<close> on ASCII strings: equality after mapping \<open>A\<close>..\<open>Z\<close> to
  \<open>a\<close>..\<open>z\<close>. (HTTP method names are ASCII; the Unicode case folding of other
  characters is not modelled.)
\<close>

definition toLower :: "char \<Rightarrow> char" where
  "toLower c =
     (if (65::nat) \<le> of_char c \<and> of_char c \<le> (90::nat) then char_of (of_char c + (32::nat))
      else c)"

definition EqualFold :: "string \<Rightarrow> string \<Rightarrow> bool" where
  "EqualFold s t = (map toLower s = map toLower t)"

subsection \<open>The regular expressions of the matcher\<close>

text \<open>
  \<open>regexp.MustCompile(`\\/:([^/]+)`).ReplaceAllString(pattern, "/[^/]+")\<close>: the
  expression matches a backslash, a slash, a colon and then as many non-slash characters
  as follow, at least one; matches are found from the left and do not overlap, and each is
  replaced by the text \<open>/[^/]+\<close> (the replacement holds no \<open>$\<close>, so nothing is expanded
  in it).
\<close>

abbreviation nonslash :: "char \<Rightarrow> bool" where
  "nonslash c \<equiv> c \<noteq> CHR ''/''"

function ReplaceAllParams :: "string \<Rightarrow> string" where
  "ReplaceAllParams [] = []"
| "ReplaceAllParams (c # cs) =
     (if c = backslash \<and> prefix ''/:'' cs \<and> takeWhile nonslash (drop 2 cs) \<noteq> []
      then ''/[^/]+'' @ ReplaceAllParams (dropWhile nonslash (drop 2 cs))
      else c # ReplaceAllParams cs)"
  by pat_completeness auto
termination
proof (relation "measure length")
  fix c :: char and cs :: string
  have "length (dropWhile nonslash (drop 2 cs)) \<le> length (drop 2 cs)"
    by (rule length_dropWhile_le)
  then show "(dropWhile nonslash (drop 2 cs), c # cs) \<in> measure length" by simp
qed simp_all

text \<open>
  The expressions that \<open>patternToRegex\<close> builds are sequences of four kinds of item:
  a literal character, \<open>.*\<close> (any run of characters other than newline), \<open>[^/]+\<close> (a
  non-empty run of characters other than the slash) and \<open>$\<close> (the end of the text).
  \<open>parse\<close> parses this fragment of the syntax of Go's \<open>regexp\<close> package; its \<open>None\<close>
  stands for every expression outside the fragment, and no expression built by
  \<open>patternToRegex\<close> is outside it (lemma \<open>patternToRegex_parses\<close>). A backslash quotes
  the ASCII punctuation character that follows it.

  \<open>regexp.Compile\<close> first rejects an expression that is not valid UTF-8; \<open>ValidString\<close>
  is \<open>utf8.ValidString\<close>, and \<open>compile\<close> is the check followed by \<open>parse\<close>, with
  \<open>None\<close> for the error.

  The items are matched byte by byte, while Go matches code point by code point. On a
  path that is valid UTF-8 the two agree. On a path that is not, Go reads each invalid
  byte as the replacement character U+FFFD, which a literal U+FFFD of the pattern can then
  match; that case is outside the model.
\<close>

datatype re_item = Lit char | AnyStar | NonSlashPlus | EndText

definition isalnum :: "char \<Rightarrow> bool" where
  "isalnum c =
     (let b = (of_char c :: nat)
      in (48 \<le> b \<and> b \<le> 57) \<or> (65 \<le> b \<and> b \<le> 90) \<or> (97 \<le> b \<and> b \<le> 122))"

definition quotable :: "char \<Rightarrow> bool" where
  "quotable c = ((of_char c :: nat) < 128 \<and> \<not> isalnum c)"

fun parse :: "string \<Rightarrow> re_item list option" where
  "parse [] = Some []"
| "parse (c # rest) =
     (if c = backslash then
        (case rest of
           [] \<Rightarrow> None
         | d # rest' \<Rightarrow> if quotable d then map_option ((#) (Lit d)) (parse rest') else None)
      else if c = CHR ''.'' \<and> prefix ''*'' rest then map_option ((#) AnyStar) (parse (drop 1 rest))
      else if c = CHR ''['' \<and> prefix ''^/]+'' rest
        then map_option ((#) NonSlashPlus) (parse (drop 4 rest))
      else if c = CHR ''$'' then map_option ((#) EndText) (parse rest)
      else if special c then None
      else map_option ((#) (Lit c)) (parse rest))"

definition continuation :: "char \<Rightarrow> bool" where
  "continuation b = ((128::nat) \<le> of_char b \<and> of_char b \<le> (191::nat))"

definition between :: "nat \<Rightarrow> nat \<Rightarrow> char \<Rightarrow> bool" where
  "between lo hi b = (lo \<le> of_char b \<and> of_char b \<le> hi)"

fun ValidString :: "string \<Rightarrow> bool" where
  "ValidString [] = True"
| "ValidString (b # s) =
     (let x = (of_char b :: nat)
      in if x < 128 then ValidString s
         else if 194 \<le> x \<and> x \<le> 223 then
           (case s of
              b1 # s1 \<Rightarrow> continuation b1 \<and> ValidString s1
            | _ \<Rightarrow> False)
         else if 224 \<le> x \<and> x \<le> 239 then
           (case s of
              b1 # b2 # s2 \<Rightarrow>
                between (if x = 224 then 160 else 128) (if x = 237 then 159 else 191) b1
                \<and> continuation b2 \<and> ValidString s2
            | _ \<Rightarrow> False)
         else if 240 \<le> x \<and> x \<le> 244 then
           (case s of
              b1 # b2 # b3 # s3 \<Rightarrow>
                between (if x = 240 then 144 else 128) (if x = 244 then 143 else 191) b1
                \<and> continuation b2 \<and> continuation b3 \<and> ValidString s3
            | _ \<Rightarrow> False)
         else False)"

definition compile :: "string \<Rightarrow> re_item list option" where
  "compile regex = (if ValidString regex then parse regex else None)"

text \<open>
  \<open>match_here items s\<close>: the items match a prefix of \<open>s\<close>. \<open>match_anywhere\<close>: they
  match some substring, which is what \<open>regexp.MatchString\<close> reports (an expression is
  not anchored at the start unless it says so).
\<close>

fun match_here :: "re_item list \<Rightarrow> string \<Rightarrow> bool" where
  "match_here [] s = True"
| "match_here (Lit c # items) [] = False"
| "match_here (Lit c # items) (x # s) = (x = c \<and> match_here items s)"
| "match_here (AnyStar # items) [] = match_here items []"
| "match_here (AnyStar # items) (x # s) =
     (match_here items (x # s) \<or> (x \<noteq> newline \<and> match_here (AnyStar # items) s))"
| "match_here (NonSlashPlus # items) [] = False"
| "match_here (NonSlashPlus # items) (x # s) =
     (nonslash x \<and> (match_here items s \<or> match_here (NonSlashPlus # items) s))"
| "match_here (EndText # items) [] = match_here items []"
| "match_here (EndText # items) (x # s) = False"

fun match_anywhere :: "re_item list \<Rightarrow> string \<Rightarrow> bool" where
  "match_anywhere items [] = match_here items []"
| "match_anywhere items (x # s) = (match_here items (x # s) \<or> match_anywhere items s)"

definition MatchString :: "string \<Rightarrow> string \<Rightarrow> bool option" where
  "MatchString regex s = map_option (\<lambda>items. match_anywhere items s) (compile regex)"

text \<open>
  The shape of a pattern after \<open>QuoteMeta\<close> and the replacement of the quoted stars: a
  sequence of plain characters, of quoted special characters other than the star, and of
  \<open>.*\<close>. It is used to show that every expression built by \<open>patternToRegex\<close> lies in
  the fragment that \<open>parse\<close> parses.
\<close>

inductive quoted :: "string \<Rightarrow> bool" where
  quoted_Nil: "quoted []"
| quoted_plain: "quoted s \<Longrightarrow> \<not> special c \<Longrightarrow> quoted (c # s)"
| quoted_escape: "quoted s \<Longrightarrow> special c \<Longrightarrow> c \<noteq> CHR ''*'' \<Longrightarrow> quoted (backslash # c # s)"
| quoted_star: "quoted s \<Longrightarrow> quoted (CHR ''.'' # CHR ''*'' # s)"

subsection \<open>Route table and matching\<close>

record RouteConfig =
  ID :: string
  Pattern :: string
  Service :: string
  Methods :: "string list"
  AuthRequired :: bool
  Roles :: "string list"
  Timeout :: Duration
  MaxBodySize :: int
  Streaming :: bool
  Headers :: "(string \<times> string) list"
  StripPrefix :: bool
  RewritePath :: string

record ServiceConfig =
  Hosts :: "string list"
  Port_s :: int
  HealthCheck :: string
  Timeout_s :: Duration
  MaxBodySize_s :: int
  Headers_s :: "(string \<times> string) list"

record RouteGroup =
  GroupName :: string
  Prefix :: string
  Middleware :: "string list"
  Routes :: "RouteConfig list"

record RouteParser =
  routes :: "RouteConfig list"
  services :: "string \<rightharpoonup> ServiceConfig"
  groups :: "RouteGroup list"

definition patternToRegex :: "string \<Rightarrow> string" where
  "patternToRegex pattern =
     (let p1 = QuoteMeta pattern;
          p2 = ReplaceAll p1 [backslash, CHR ''*''] ''.*'';
          p3 = ReplaceAllParams p2
      in if \<not> HasSuffix p3 ''$'' then p3 @ ''$'' else p3)"

definition matchRoutePattern :: "string \<Rightarrow> string \<Rightarrow> bool" where
  "matchRoutePattern pattern path =
     (case MatchString (patternToRegex pattern) path of
        None \<Rightarrow> False
      | Some matched \<Rightarrow> matched)"

fun anyEqualFold :: "string list \<Rightarrow> string \<Rightarrow> bool" where
  "anyEqualFold [] requestMethod = False"
| "anyEqualFold (m # ms) requestMethod =
     (if EqualFold m requestMethod then True else anyEqualFold ms requestMethod)"

definition matchMethod :: "string list \<Rightarrow> string \<Rightarrow> bool" where
  "matchMethod allowedMethods requestMethod =
     (if length allowedMethods = 0 then True else anyEqualFold allowedMethods requestMethod)"

datatype MatchError = ServiceNotFound string | NoRouteFound string string

text \<open>
  The loops of \<open>MatchRoute\<close>. \<open>matchRoutes\<close> is the loop over one list of routes: it
  returns at the first route whose pattern and methods match, with an error when that
  route's service is not in the services map; \<open>None\<close> means that the loop ended without
  returning. \<open>matchGroups\<close> is the loop over the groups, which scans the routes of each
  group whose prefix is a prefix of the path.
\<close>

fun matchRoutes ::
  "(string \<rightharpoonup> ServiceConfig) \<Rightarrow> RouteConfig list \<Rightarrow> string \<Rightarrow> string
     \<Rightarrow> (MatchError + RouteConfig \<times> ServiceConfig) option" where
  "matchRoutes svcs [] method path = None"
| "matchRoutes svcs (route # rs) method path =
     (if matchRoutePattern (Pattern route) path \<and> matchMethod (Methods route) method
      then (case svcs (Service route) of
              None \<Rightarrow> Some (Inl (ServiceNotFound (Service route)))
            | Some service \<Rightarrow> Some (Inr (route, service)))
      else matchRoutes svcs rs method path)"

fun matchGroups ::
  "(string \<rightharpoonup> ServiceConfig) \<Rightarrow> RouteGroup list \<Rightarrow> string \<Rightarrow> string
     \<Rightarrow> (MatchError + RouteConfig \<times> ServiceConfig) option" where
  "matchGroups svcs [] method path = None"
| "matchGroups svcs (g # gs) method path =
     (if HasPrefix path (Prefix g)
      then (case matchRoutes svcs (Routes g) method path of
              Some res \<Rightarrow> Some res
            | None \<Rightarrow> matchGroups svcs gs method path)
      else matchGroups svcs gs method path)"

definition MatchRoute ::
  "RouteParser \<Rightarrow> string \<Rightarrow> string \<Rightarrow> MatchError + RouteConfig \<times> ServiceConfig" where
  "MatchRoute p method path =
     (case matchGroups (services p) (groups p) method path of
        Some res \<Rightarrow> res
      | None \<Rightarrow>
          (case matchRoutes (services p) (routes p) method path of
             Some res \<Rightarrow> res
           | None \<Rightarrow> Inl (NoRouteFound method path)))"

text \<open>
  The routes that \<open>MatchRoute\<close> examines for a path, in the order in which it examines
  them (the routes of every group whose prefix is a prefix of the path, then the global
  routes), and the first of them whose pattern and methods match.
\<close>

definition candidates :: "RouteParser \<Rightarrow> string \<Rightarrow> RouteConfig list" where
  "candidates p path =
     concat (map Routes (filter (\<lambda>g. HasPrefix path (Prefix g)) (groups p))) @ routes p"

definition first_match :: "RouteParser \<Rightarrow> string \<Rightarrow> string \<Rightarrow> RouteConfig option" where
  "first_match p method path =
     find (\<lambda>r. matchRoutePattern (Pattern r) path \<and> matchMethod (Methods r) method)
       (candidates p path)"

section \<open>Service registry (package discovery)\<close>

text \<open>
  \<open>HealthStatus\<close> is a string type in the source, with three named constants; a value
  decoded from a request body can be any string.
\<close>

type_synonym HealthStatus = string

definition HealthStatusHealthy :: HealthStatus where
  "HealthStatusHealthy = ''healthy''"

definition HealthStatusUnhealthy :: HealthStatus where
  "HealthStatusUnhealthy = ''unhealthy''"

definition HealthStatusCritical :: HealthStatus where
  "HealthStatusCritical = ''critical''"

record ServiceInstance =
  ID_i :: string
  Name :: string
  Address :: string
  Port :: int
  Tags :: "string list"
  Meta :: "(string \<times> string) list"
  Health :: HealthStatus
  LastSeen :: Time

text \<open>
  The registry stores pointers \<open>*ServiceInstance\<close>, and the health check writes through
  them, so the instances live in an explicit store \<open>heap\<close> from addresses to instances.
  A Go map is an association list with distinct keys; Go leaves the order in which
  \<open>range\<close> visits a map unspecified, and the model visits it in the order of the list.
  A watcher is a channel of capacity 1, modelled by the content of its buffer.

  \<open>sync.RWMutex\<close> is modelled by its state. A request for the lock that cannot be granted
  makes the caller wait: the operation then has no result (\<open>None\<close>). When the lock is
  held by the calling goroutine itself, whose deferred unlock runs only when the operation
  returns, the wait never ends.
\<close>

type_synonym addr = nat

datatype RWMutex = Unlocked | WriteLocked | ReadLocked nat

definition Lock :: "RWMutex \<Rightarrow> RWMutex option" where
  "Lock m = (case m of Unlocked \<Rightarrow> Some WriteLocked | _ \<Rightarrow> None)"

definition RLock :: "RWMutex \<Rightarrow> RWMutex option" where
  "RLock m = (case m of Unlocked \<Rightarrow> Some (ReadLocked 1)
                      | ReadLocked n \<Rightarrow> Some (ReadLocked (Suc n))
                      | WriteLocked \<Rightarrow> None)"

record InMemoryDiscovery =
  services_d :: "(string \<times> (string \<times> addr) list) list"
  watchers :: "(string \<times> addr list option list) list"
  mutex :: RWMutex
  heap :: "addr \<Rightarrow> ServiceInstance"

datatype DiscoveryError = ServiceNotFound_d string | InstanceNotFound string

definition New :: "(addr \<Rightarrow> ServiceInstance) \<Rightarrow> InMemoryDiscovery" where
  "New h = \<lparr>services_d = [], watchers = [], mutex = Unlocked, heap = h\<rparr>"

text \<open>
  \<open>Discover\<close> takes the read lock, reads, and releases it on return, which leaves the
  mutex as it found it; so it returns a result and no new state.
\<close>

definition Discover :: "InMemoryDiscovery \<Rightarrow> string \<Rightarrow> (DiscoveryError + addr list) option" where
  "Discover d serviceName =
     (case RLock (mutex d) of
        None \<Rightarrow> None
      | Some held \<Rightarrow>
          Some (case map_of (services_d d) serviceName of
                  None \<Rightarrow> Inl (ServiceNotFound_d serviceName)
                | Some instances \<Rightarrow>
                    Inr (filter (\<lambda>instance. Health (heap d instance) = HealthStatusHealthy)
                           (map snd instances))))"

text \<open>The non-blocking send of \<open>notifyWatchers\<close>: a full buffer keeps its content.\<close>

definition send_nonblocking :: "addr list \<Rightarrow> addr list option \<Rightarrow> addr list option" where
  "send_nonblocking instances buffer = (case buffer of None \<Rightarrow> Some instances | Some old \<Rightarrow> Some old)"

definition notifyWatchers :: "InMemoryDiscovery \<Rightarrow> string \<Rightarrow> InMemoryDiscovery option" where
  "notifyWatchers d serviceName =
     (case map_of (watchers d) serviceName of
        None \<Rightarrow> Some d
      | Some ws \<Rightarrow>
          (case Discover d serviceName of
             None \<Rightarrow> None
           | Some (Inl err) \<Rightarrow> Some d
           | Some (Inr instances) \<Rightarrow>
               Some (d\<lparr>watchers :=
                       AList.update serviceName (map (send_nonblocking instances) ws) (watchers d)\<rparr>)))"

text \<open>
  \<open>Register\<close> takes the address of the instance. It returns the \<open>nil\<close> error whenever it
  returns, so its result is the new state alone.
\<close>

definition Register :: "InMemoryDiscovery \<Rightarrow> addr \<Rightarrow> Time \<Rightarrow> InMemoryDiscovery option" where
  "Register d instance now =
     (case Lock (mutex d) of
        None \<Rightarrow> None
      | Some held \<Rightarrow>
          (let name = Name (heap d instance);
               inner = (case map_of (services_d d) name of None \<Rightarrow> [] | Some m \<Rightarrow> m);
               d1 = d\<lparr>mutex := held,
                      heap := (heap d)(instance := (heap d instance)\<lparr>LastSeen := now\<rparr>),
                      services_d :=
                        AList.update name (AList.update (ID_i (heap d instance)) instance inner)
                          (services_d d)\<rparr>
           in case notifyWatchers d1 name of
                None \<Rightarrow> None
              | Some d2 \<Rightarrow> Some (d2\<lparr>mutex := Unlocked\<rparr>)))"

fun findInstance :: "(string \<times> (string \<times> addr) list) list \<Rightarrow> string \<Rightarrow> string option" where
  "findInstance [] serviceID = None"
| "findInstance ((serviceName, instances) # rest) serviceID =
     (if map_of instances serviceID \<noteq> None then Some serviceName
      else findInstance rest serviceID)"

definition Deregister ::
  "InMemoryDiscovery \<Rightarrow> string \<Rightarrow> (DiscoveryError option \<times> InMemoryDiscovery) option" where
  "Deregister d serviceID =
     (case Lock (mutex d) of
        None \<Rightarrow> None
      | Some held \<Rightarrow>
          (case findInstance (services_d d) serviceID of
             Some serviceName \<Rightarrow>
               (let d1 = d\<lparr>mutex := held,
                           services_d := AList.map_entry serviceName (AList.delete serviceID)
                                           (services_d d)\<rparr>
                in case notifyWatchers d1 serviceName of
                     None \<Rightarrow> None
                   | Some d2 \<Rightarrow> Some (None, d2\<lparr>mutex := Unlocked\<rparr>))
           | None \<Rightarrow> Some (Some (InstanceNotFound serviceID), d)))"

text \<open>
  \<open>Watch\<close> appends a new, empty channel to the watchers of the service and returns it
  (here: its position). The goroutine that \<open>Watch\<close> starts runs after \<open>Watch\<close> has
  released the lock and does nothing but send the current list on the new channel; it is
  not part of the model.
\<close>

definition Watch :: "InMemoryDiscovery \<Rightarrow> string \<Rightarrow> (nat \<times> InMemoryDiscovery) option" where
  "Watch d serviceName =
     (case Lock (mutex d) of
        None \<Rightarrow> None
      | Some held \<Rightarrow>
          (let ws = (case map_of (watchers d) serviceName of None \<Rightarrow> [] | Some chans \<Rightarrow> chans)
           in Some (length ws,
                    d\<lparr>watchers := AList.update serviceName (ws @ [None]) (watchers d)\<rparr>)))"

text \<open>
  \<open>simulateHealthCheck\<close> reports every instance healthy. \<open>checkInstanceHealth\<close> is the
  part of the health check that runs under the lock.
\<close>

definition simulateHealthCheck :: bool where
  "simulateHealthCheck = True"

definition checkInstanceHealth ::
  "InMemoryDiscovery \<Rightarrow> string \<Rightarrow> addr \<Rightarrow> Time \<Rightarrow> InMemoryDiscovery option" where
  "checkInstanceHealth d serviceName instance now =
     (let healthy = simulateHealthCheck
      in case Lock (mutex d) of
           None \<Rightarrow> None
         | Some held \<Rightarrow>
             (let oldHealth = Health (heap d instance);
                  updated = (if healthy
                             then (heap d instance)\<lparr>Health := HealthStatusHealthy, LastSeen := now\<rparr>
                             else (heap d instance)\<lparr>Health := HealthStatusUnhealthy\<rparr>);
                  d1 = d\<lparr>mutex := held, heap := (heap d)(instance := updated)\<rparr>
              in if oldHealth \<noteq> Health updated
                 then (case notifyWatchers d1 serviceName of
                         None \<Rightarrow> None
                       | Some d2 \<Rightarrow> Some (d2\<lparr>mutex := Unlocked\<rparr>))
                 else Some (d1\<lparr>mutex := Unlocked\<rparr>)))"

text \<open>
  Histories of the registry: the operations that change it, run one after the other from
  a state. A history has a result only if every operation in it returns.
\<close>

datatype registry_op =
    OpRegister addr Time
  | OpDeregister string
  | OpCheckHealth string addr Time
  | OpWatch string

fun run_op :: "InMemoryDiscovery \<Rightarrow> registry_op \<Rightarrow> InMemoryDiscovery option" where
  "run_op d (OpRegister instance now) = Register d instance now"
| "run_op d (OpDeregister serviceID) = map_option snd (Deregister d serviceID)"
| "run_op d (OpCheckHealth serviceName instance now) = checkInstanceHealth d serviceName instance now"
| "run_op d (OpWatch serviceName) = map_option snd (Watch d serviceName)"

fun run_ops :: "InMemoryDiscovery \<Rightarrow> registry_op list \<Rightarrow> InMemoryDiscovery option" where
  "run_ops d [] = Some d"
| "run_ops d (op # ops) = (case run_op d op of None \<Rightarrow> None | Some d' \<Rightarrow> run_ops d' ops)"

text \<open>
  \<open>Handler.RegisterService\<close>: the request body is decoded into a new instance (at the
  address \<open>fresh\<close>), which is registered as decoded. \<open>None\<close> stands for a body that does
  not decode. The result is the HTTP status and the registry.
\<close>

definition RegisterService ::
  "InMemoryDiscovery \<Rightarrow> ServiceInstance option \<Rightarrow> addr \<Rightarrow> Time \<Rightarrow> (int \<times> InMemoryDiscovery) option" where
  "RegisterService d body fresh now =
     (case body of
        None \<Rightarrow> Some (400, d)
      | Some instance \<Rightarrow>
          map_option (\<lambda>d'. (200, d')) (Register (d\<lparr>heap := (heap d)(fresh := instance)\<rparr>) fresh now))"

text \<open>
  Views of the registry used to state its properties: the map from instance id to address
  that is stored for a service; the instance stored under a service name and an id; the
  health of the instance that a call of \<open>Register\<close> has just stored (\<open>None\<close> when the call
  does not return); and the well-formedness of the association lists (keys are distinct,
  as in a Go map).
\<close>

definition instances_of :: "InMemoryDiscovery \<Rightarrow> string \<Rightarrow> (string \<rightharpoonup> addr) option" where
  "instances_of d serviceName = map_option map_of (map_of (services_d d) serviceName)"

definition lookup_instance :: "InMemoryDiscovery \<Rightarrow> string \<Rightarrow> string \<Rightarrow> ServiceInstance option" where
  "lookup_instance d serviceName ident =
     (case map_of (services_d d) serviceName of
        None \<Rightarrow> None
      | Some m \<Rightarrow> map_option (heap d) (map_of m ident))"

definition health_after_Register :: "InMemoryDiscovery \<Rightarrow> addr \<Rightarrow> Time \<Rightarrow> HealthStatus option" where
  "health_after_Register d a now =
     (case Register d a now of
        None \<Rightarrow> None
      | Some d' \<Rightarrow> map_option Health (lookup_instance d' (Name (heap d a)) (ID_i (heap d a))))"

definition health_after_RegisterService ::
  "InMemoryDiscovery \<Rightarrow> ServiceInstance \<Rightarrow> addr \<Rightarrow> Time \<Rightarrow> (int \<times> HealthStatus option) option" where
  "health_after_RegisterService d body fresh now =
     (case RegisterService d (Some body) fresh now of
        None \<Rightarrow> None
      | Some (status, d') \<Rightarrow>
          Some (status, map_option Health (lookup_instance d' (Name body) (ID_i body))))"

definition wf_registry :: "InMemoryDiscovery \<Rightarrow> bool" where
  "wf_registry d \<longleftrightarrow>
     distinct (map fst (services_d d))
     \<and> list_all (\<lambda>entry. distinct (map fst (snd entry))) (services_d d)"

text \<open>The service name under which an operation of a history registers an instance, if any.\<close>

definition registered_by :: "InMemoryDiscovery \<Rightarrow> registry_op \<Rightarrow> string set" where
  "registered_by d op = (case op of OpRegister a t \<Rightarrow> {Name (heap d a)} | _ \<Rightarrow> {})"

section \<open>Proxy forwarder (package proxy, the proxy service)\<close>

text \<open>\<open>fmt.Sprintf("%s:%d", address, port)\<close>, with the decimal digits written out.\<close>

definition digit :: "nat \<Rightarrow> char" where
  "digit n = ''0123456789'' ! n"

fun digits :: "nat \<Rightarrow> string" where
  "digits n = (if n < 10 then [digit n] else digits (n div 10) @ [digit (n mod 10)])"

declare digits.simps [simp del]

definition Itoa :: "int \<Rightarrow> string" where
  "Itoa i = (if i < 0 then CHR ''-'' # digits (nat (- i)) else digits (nat i))"

definition host_port :: "string \<Rightarrow> int \<Rightarrow> string" where
  "host_port address port = address @ '':'' @ Itoa port"

record URL =
  Scheme :: string
  Host :: string
  Path :: string

record ProxyService =
  routeParser :: RouteParser
  discovery :: InMemoryDiscovery
  maintenanceMode :: bool

definition SetMaintenanceMode :: "ProxyService \<Rightarrow> bool \<Rightarrow> ProxyService" where
  "SetMaintenanceMode p enabled = p\<lparr>maintenanceMode := enabled\<rparr>"

definition isMaintenanceMode :: "ProxyService \<Rightarrow> bool" where
  "isMaintenanceMode p = maintenanceMode p"

text \<open>\<open>buildTargetURL\<close> returns the \<open>nil\<close> error on every path.\<close>

definition buildTargetURL ::
  "ServiceInstance \<Rightarrow> string \<Rightarrow> RouteConfig \<Rightarrow> ServiceConfig \<Rightarrow> string + URL" where
  "buildTargetURL instance path route service =
     (let path' = (if StripPrefix route then TrimPrefix path (Pattern route)
                   else if RewritePath route \<noteq> [] then RewritePath route
                   else path)
      in Inr \<lparr>Scheme = ''http'', Host = host_port (Address instance) (Port instance),
              Path = path'\<rparr>)"

text \<open>
  \<open>ProxyGinRequest\<close> either writes a JSON answer of its own, \<open>Reply status message\<close>,
  or hands the request to a reverse proxy built for the target URL, \<open>ReverseProxy url\<close>,
  which contacts the backend at the host of that URL (the reverse proxy of the standard
  library is not modelled further). It has no result when \<open>Discover\<close> has none.
\<close>

datatype outcome = Reply int string | ReverseProxy URL

definition StatusNotFound :: int where "StatusNotFound = 404"
definition StatusServiceUnavailable :: int where "StatusServiceUnavailable = 503"
definition StatusInternalServerError :: int where "StatusInternalServerError = 500"
definition StatusBadGateway :: int where "StatusBadGateway = 502"

definition ProxyGinRequest :: "ProxyService \<Rightarrow> string \<Rightarrow> string \<Rightarrow> outcome option" where
  "ProxyGinRequest p method path =
     (if isMaintenanceMode p
      then Some (Reply StatusServiceUnavailable ''Service is under maintenance'')
      else
        (case MatchRoute (routeParser p) method path of
           Inl err \<Rightarrow> Some (Reply StatusNotFound ''Route not found'')
         | Inr (route, service) \<Rightarrow>
             (case Discover (discovery p) (Service route) of
                None \<Rightarrow> None
              | Some (Inl err) \<Rightarrow> Some (Reply StatusServiceUnavailable ''Service not available'')
              | Some (Inr []) \<Rightarrow> Some (Reply StatusServiceUnavailable ''Service not available'')
              | Some (Inr (instance # others)) \<Rightarrow>
                  (case buildTargetURL (heap (discovery p) instance) path route service of
                     Inl err \<Rightarrow> Some (Reply StatusInternalServerError ''Internal server error'')
                   | Inr targetURL \<Rightarrow> Some (ReverseProxy targetURL)))))"

text \<open>
  \<open>ProxyRequest\<close> builds and sends the outbound request itself. Creating the request,
  sending it with the HTTP client and reading the body of the answer are the parameter
  \<open>transport\<close>, a function of the method and the target URL. The headers, the query
  parameters and the deadline of the outbound request are not modelled. The result is the
  response and the returned error.
\<close>

record ProxyRequest =
  Method_q :: string
  Path_q :: string
  Headers_q :: "(string \<times> string) list"
  Body_q :: string
  QueryParams_q :: "(string \<times> string) list"
  Timeout_q :: Duration

datatype transport_result =
    RequestRejected
  | TransportFailed
  | ReadFailed
  | Answered int "(string \<times> string) list" string

datatype ProxyError =
    MatchFailed MatchError
  | DiscoverFailed DiscoveryError
  | RequestFailed
  | SendFailed
  | BodyFailed

record ProxyResponse =
  StatusCode :: int
  Headers_r :: "(string \<times> string) list"
  Body_r :: string
  Error_r :: "string option"

definition failure :: "int \<Rightarrow> string \<Rightarrow> ProxyResponse" where
  "failure status msg = \<lparr>StatusCode = status, Headers_r = [], Body_r = [], Error_r = Some msg\<rparr>"

definition ProxyRequest ::
  "ProxyService \<Rightarrow> (string \<Rightarrow> URL \<Rightarrow> transport_result) \<Rightarrow> ProxyRequest
     \<Rightarrow> (ProxyResponse \<times> ProxyError option) option" where
  "ProxyRequest p transport req =
     (case MatchRoute (routeParser p) (Method_q req) (Path_q req) of
        Inl err \<Rightarrow> Some (failure StatusNotFound ''no route found'', Some (MatchFailed err))
      | Inr (route, service) \<Rightarrow>
          (case Discover (discovery p) (Service route) of
             None \<Rightarrow> None
           | Some (Inl err) \<Rightarrow>
               Some (failure StatusServiceUnavailable ''service not available'',
                     Some (DiscoverFailed err))
           | Some (Inr []) \<Rightarrow> Some (failure StatusServiceUnavailable ''service not available'', None)
           | Some (Inr (instance # others)) \<Rightarrow>
               (case buildTargetURL (heap (discovery p) instance) (Path_q req) route service of
                  Inl err \<Rightarrow>
                    Some (failure StatusInternalServerError ''failed to build target URL'',
                          Some RequestFailed)
                | Inr targetURL \<Rightarrow>
                    (case transport (Method_q req) targetURL of
                       RequestRejected \<Rightarrow>
                         Some (failure StatusInternalServerError ''failed to create request'',
                               Some RequestFailed)
                     | TransportFailed \<Rightarrow>
                         Some (failure StatusBadGateway ''request failed'', Some SendFailed)
                     | ReadFailed \<Rightarrow>
                         Some (failure StatusInternalServerError ''failed to read response body'',
                               Some BodyFailed)
                     | Answered status headers body \<Rightarrow>
                         Some (\<lparr>StatusCode = status, Headers_r = headers, Body_r = body,
                                Error_r = None\<rparr>, None)))))"

section \<open>Example configurations\<close>

text \<open>
  Route tables, registries and requests used to evaluate the operations at concrete
  inputs: the scenarios of the specification and of the repository's tests.
\<close>

definition mk_route :: "string \<Rightarrow> string \<Rightarrow> string list \<Rightarrow> bool \<Rightarrow> RouteConfig" where
  "mk_route pattern service methods strip =
     \<lparr>ID = [], Pattern = pattern, Service = service, Methods = methods, AuthRequired = False,
      Roles = [], Timeout = 0, MaxBodySize = 0, Streaming = False, Headers = [],
      StripPrefix = strip, RewritePath = []\<rparr>"

definition service_config :: "string \<Rightarrow> int \<Rightarrow> ServiceConfig" where
  "service_config host port =
     \<lparr>Hosts = [host], Port_s = port, HealthCheck = ''/health'', Timeout_s = 0,
      MaxBodySize_s = 0, Headers_s = []\<rparr>"

definition mk_instance :: "string \<Rightarrow> string \<Rightarrow> string \<Rightarrow> int \<Rightarrow> HealthStatus \<Rightarrow> ServiceInstance" where
  "mk_instance ident name address port health =
     \<lparr>ID_i = ident, Name = name, Address = address, Port = port, Tags = [], Meta = [],
      Health = health, LastSeen = 0\<rparr>"

text \<open>The order scenario: one route \<open>/orders/:id\<close> for \<open>GET\<close>, one healthy instance.\<close>

definition orders_parser :: RouteParser where
  "orders_parser =
     \<lparr>routes = [mk_route ''/orders/:id'' ''order-svc'' [''GET''] False],
      services = [''order-svc'' \<mapsto> service_config ''10.0.0.1'' 9000],
      groups = []\<rparr>"

definition admin_parser :: RouteParser where
  "admin_parser =
     \<lparr>routes = [mk_route ''/admin'' ''admin-svc'' [''GET''] False],
      services = [''admin-svc'' \<mapsto> service_config ''10.0.0.2'' 9100],
      groups = []\<rparr>"

text \<open>
  The instances of the repository's registry tests: a healthy instance at address 1 and an
  unhealthy one at address 2, both of the service \<open>test-service\<close>.
\<close>

definition test_heap :: "addr \<Rightarrow> ServiceInstance" where
  "test_heap =
     (\<lambda>a. mk_instance [] [] [] 0 [])
       (1 := mk_instance ''healthy-instance'' ''test-service'' ''localhost'' 8080 HealthStatusHealthy,
        2 := mk_instance ''unhealthy-instance'' ''test-service'' ''localhost'' 8081 HealthStatusUnhealthy)"

text \<open>
  The registry after both test instances have been registered, at times 100 and 101, and
  the registry after only the unhealthy one has been.
\<close>

definition test_registry :: InMemoryDiscovery where
  "test_registry =
     \<lparr>services_d = [(''test-service'', [(''healthy-instance'', 1), (''unhealthy-instance'', 2)])],
      watchers = [], mutex = Unlocked,
      heap = test_heap(1 := (test_heap 1)\<lparr>LastSeen := 100\<rparr>, 2 := (test_heap 2)\<lparr>LastSeen := 101\<rparr>)\<rparr>"

definition unhealthy_registry :: InMemoryDiscovery where
  "unhealthy_registry =
     \<lparr>services_d = [(''test-service'', [(''unhealthy-instance'', 2)])],
      watchers = [], mutex = Unlocked,
      heap = test_heap(2 := (test_heap 2)\<lparr>LastSeen := 101\<rparr>)\<rparr>"

text \<open>
  Backends for the proxy scenarios: one healthy instance of \<open>order-svc\<close> at
  \<open>10.0.0.1:9000\<close> and one of \<open>user-service\<close> at \<open>10.0.0.3:8081\<close>; a transport whose
  backend answers 200 with the host and path it was asked for.
\<close>

definition backend_registry :: InMemoryDiscovery where
  "backend_registry =
     \<lparr>services_d = [(''order-svc'', [(''order-svc-10.0.0.1'', 1)]),
                    (''user-service'', [(''user-service-10.0.0.3'', 2)])],
      watchers = [], mutex = Unlocked,
      heap = (\<lambda>a. mk_instance [] [] [] 0 [])
               (1 := mk_instance ''order-svc-10.0.0.1'' ''order-svc'' ''10.0.0.1'' 9000 HealthStatusHealthy,
                2 := mk_instance ''user-service-10.0.0.3'' ''user-service'' ''10.0.0.3'' 8081
                       HealthStatusHealthy)\<rparr>"

definition echo_backend :: "string \<Rightarrow> URL \<Rightarrow> transport_result" where
  "echo_backend method url = Answered 200 [] (Host url @ Path url)"

definition get_request :: "string \<Rightarrow> ProxyRequest" where
  "get_request path =
     \<lparr>Method_q = ''GET'', Path_q = path, Headers_q = [], Body_q = [], QueryParams_q = [],
      Timeout_q = 0\<rparr>"

text \<open>Maintenance mode switched on, with a route \<open>/orders/*\<close> that matches \<open>/orders/77\<close>.\<close>

definition maintenance_proxy :: ProxyService where
  "maintenance_proxy =
     SetMaintenanceMode
       \<lparr>routeParser =
          \<lparr>routes = [mk_route ''/orders/*'' ''order-svc'' [''GET''] False],
           services = [''order-svc'' \<mapsto> service_config ''10.0.0.1'' 9000],
           groups = []\<rparr>,
        discovery = backend_registry, maintenanceMode = False\<rparr>
       True"

text \<open>
  Three route tables for the strip-prefix scenario, each with \<open>strip_prefix\<close> set: the
  prefix \<open>/api/v1/users\<close> as the pattern of a global route; the group of the shipped
  configuration, prefix \<open>/api/v1/users\<close> with the route \<open>/:path\<close>; and the same group with
  the route \<open>/*\<close>.
\<close>

definition users_proxy :: "RouteGroup list \<Rightarrow> RouteConfig list \<Rightarrow> ProxyService" where
  "users_proxy gs rs =
     \<lparr>routeParser =
        \<lparr>routes = rs, services = [''user-service'' \<mapsto> service_config ''10.0.0.3'' 8081],
         groups = gs\<rparr>,
      discovery = backend_registry, maintenanceMode = False\<rparr>"

definition users_group :: "string \<Rightarrow> RouteGroup" where
  "users_group pattern =
     \<lparr>GroupName = ''users'', Prefix = ''/api/v1/users'', Middleware = [''auth'', ''cors''],
      Routes = [mk_route pattern ''user-service'' [''GET'', ''POST'', ''PUT'', ''DELETE'', ''PATCH''] True]\<rparr>"

text \<open>A route that matches \<open>GET /orders/77\<close> but whose service is not configured.\<close>

definition missing_service_proxy :: ProxyService where
  "missing_service_proxy =
     \<lparr>routeParser =
        \<lparr>routes = [mk_route ''/orders/*'' ''order-svc'' [''GET''] False],
         services = Map.empty, groups = []\<rparr>,
      discovery = backend_registry, maintenanceMode = False\<rparr>"

section \<open>Properties of the rate limiter\<close>

lemma Allow_limit [simp]: "limit (snd (Allow r key now)) = limit r"
  by (simp add: Allow_def Let_def)

lemma Allow_window [simp]: "window (snd (Allow r key now)) = window r"
  by (simp add: Allow_def Let_def)

lemma Allow_other_key: "k \<noteq> key \<Longrightarrow> requests (snd (Allow r key now)) k = requests r k"
  by (simp add: Allow_def Let_def split: option.splits)

text \<open>
  One call, on a key whose recorded timestamps \<open>xs\<close> all lie inside the window that ends
  at \<open>now\<close>: nothing is pruned, the call is admitted exactly when fewer than \<open>limit\<close>
  timestamps are recorded, and only an admitted call records \<open>now\<close>.
\<close>

lemma Allow_fresh:
  assumes "slice_at (requests r) key = xs" and "\<forall>x\<in>set xs. now - window r < x"
  shows "Allow r key now =
           (if limit r \<le> int (length xs) then (False, r\<lparr>requests := (requests r)(key \<mapsto> xs)\<rparr>)
            else (True, r\<lparr>requests := (requests r)(key \<mapsto> xs @ [now])\<rparr>))"
proof (cases "requests r key")
  case None
  with assms(1) have "xs = []" by (simp add: slice_at_def)
  with None show ?thesis by (simp add: Allow_def slice_at_def)
next
  case (Some tms)
  with assms(1) have "tms = xs" by (simp add: slice_at_def)
  moreover from assms(2) have "filter (\<lambda>t. now - window r < t) xs = xs" by simp
  ultimately show ?thesis using Some by (simp add: Allow_def slice_at_def)
qed

lemma AllowSeq_span:
  assumes "slice_at (requests r) key = xs"
    and "\<forall>a\<in>set xs \<union> set ts. \<forall>b\<in>set ts. b - window r < a"
  shows "AllowSeq r key ts =
           (replicate (min (nat (limit r) - length xs) (length ts)) True
              @ replicate (length ts - (nat (limit r) - length xs)) False,
            if ts = [] then r
            else r\<lparr>requests := (requests r)(key \<mapsto> xs @ take (nat (limit r) - length xs) ts)\<rparr>)"
  using assms
proof (induction ts arbitrary: r xs)
  case Nil
  show ?case by simp
next
  case (Cons t ts)
  have fresh: "\<forall>x\<in>set xs. t - window r < x" using Cons.prems(2) by simp
  note step = Allow_fresh [OF Cons.prems(1) fresh]
  show ?case
  proof (cases "limit r \<le> int (length xs)")
    case True
    let ?r1 = "r\<lparr>requests := (requests r)(key \<mapsto> xs)\<rparr>"
    have a1: "slice_at (requests ?r1) key = xs" by (simp add: slice_at_def)
    have a2: "\<forall>a\<in>set xs \<union> set ts. \<forall>b\<in>set ts. b - window ?r1 < a"
      using Cons.prems(2) by simp
    have k0: "nat (limit r) - length xs = 0" using True by simp
    from Cons.IH [OF a1 a2] k0 have "AllowSeq ?r1 key ts = (replicate (length ts) False, ?r1)"
      by (cases ts) simp_all
    with step True k0 show ?thesis by simp
  next
    case False
    let ?r1 = "r\<lparr>requests := (requests r)(key \<mapsto> xs @ [t])\<rparr>"
    have a1: "slice_at (requests ?r1) key = xs @ [t]" by (simp add: slice_at_def)
    have a2: "\<forall>a\<in>set (xs @ [t]) \<union> set ts. \<forall>b\<in>set ts. b - window ?r1 < a"
      using Cons.prems(2) by simp
    from False obtain k where k: "nat (limit r) - length xs = Suc k"
      by (cases "nat (limit r) - length xs") auto
    then have k': "nat (limit r) - length (xs @ [t]) = k" by simp
    from Cons.IH [OF a1 a2] k' have
      "AllowSeq ?r1 key ts =
         (replicate (min k (length ts)) True @ replicate (length ts - k) False,
          if ts = [] then ?r1
          else ?r1\<lparr>requests := (requests ?r1)(key \<mapsto> (xs @ [t]) @ take k ts)\<rparr>)"
      by simp
    with step False k show ?thesis by simp
  qed
qed

text \<open>
  Claim C3. A limiter with maximum \<open>limit r \<ge> 1\<close> and window \<open>window r\<close>, and a key
  with no recorded history. For calls \<open>Allow key\<close> at clock readings \<open>ts\<close> that all lie
  within a span shorter than the window: exactly the first \<open>limit r\<close> calls return true
  and every later one false; a rejected call leaves the timestamps recorded for the key as
  they were; and a call made once more than the window has elapsed since the first
  (admitted) call returns true again.
\<close>

theorem Allow_sliding_window:
  assumes N: "1 \<le> limit r"
    and fresh: "requests r key = None"
    and span: "\<forall>a\<in>set ts. \<forall>b\<in>set ts. b - a < window r"
  shows "fst (AllowSeq r key ts) =
           replicate (min (nat (limit r)) (length ts)) True
             @ replicate (length ts - nat (limit r)) False
         \<and> (\<forall>k<length ts. \<not> fst (AllowSeq r key ts) ! k \<longrightarrow>
               requests (snd (AllowSeq r key (take (Suc k) ts))) key
                 = requests (snd (AllowSeq r key (take k ts))) key)
         \<and> (\<forall>now. ts \<noteq> [] \<and> window r < now - hd ts \<longrightarrow>
               fst (Allow (snd (AllowSeq r key ts)) key now))"
proof -
  have empty: "slice_at (requests r) key = []" using fresh by (simp add: slice_at_def)
  have run: "AllowSeq r key us =
               (replicate (min (nat (limit r)) (length us)) True
                  @ replicate (length us - nat (limit r)) False,
                if us = [] then r
                else r\<lparr>requests := (requests r)(key \<mapsto> take (nat (limit r)) us)\<rparr>)"
    if "set us \<subseteq> set ts" for us
  proof -
    have "\<forall>a\<in>set [] \<union> set us. \<forall>b\<in>set us. b - window r < a"
    proof (intro ballI)
      fix a b assume "a \<in> set [] \<union> set us" and "b \<in> set us"
      with span that have "b - a < window r" by auto
      then show "b - window r < a" by linarith
    qed
    from AllowSeq_span [OF empty this] show ?thesis by simp
  qed
  have results: "fst (AllowSeq r key ts) =
           replicate (min (nat (limit r)) (length ts)) True
             @ replicate (length ts - nat (limit r)) False"
    using run [of ts] by simp
  have rejected: "requests (snd (AllowSeq r key (take (Suc k) ts))) key
                 = requests (snd (AllowSeq r key (take k ts))) key"
    if k: "k < length ts" and no: "\<not> fst (AllowSeq r key ts) ! k" for k
  proof -
    have late: "nat (limit r) \<le> k"
    proof (rule ccontr)
      assume "\<not> nat (limit r) \<le> k"
      then have "k < min (nat (limit r)) (length ts)" using k by simp
      then have "fst (AllowSeq r key ts) ! k" by (simp add: results nth_append)
      with no show False by simp
    qed
    with N have "0 < k" by linarith
    then have ne: "take k ts \<noteq> []" "take (Suc k) ts \<noteq> []" using k by auto
    have "take (nat (limit r)) (take (Suc k) ts) = take (nat (limit r)) (take k ts)"
      using late by (simp add: min_def)
    then show ?thesis
      using run [of "take k ts"] run [of "take (Suc k) ts"] ne
      by (simp add: set_take_subset)
  qed
  have again: "fst (Allow (snd (AllowSeq r key ts)) key now)"
    if ne: "ts \<noteq> []" and late: "window r < now - hd ts" for now
  proof -
    let ?xs = "take (nat (limit r)) ts"
    let ?r' = "r\<lparr>requests := (requests r)(key \<mapsto> ?xs)\<rparr>"
    have st: "snd (AllowSeq r key ts) = ?r'" using run [of ts] ne by simp
    have "0 < nat (limit r)" using N by simp
    then have "hd ts \<in> set ?xs" using ne by (cases ts; cases "nat (limit r)") auto
    moreover have "\<not> now - window r < hd ts" using late by simp
    ultimately have "length (filter (\<lambda>t. now - window r < t) ?xs) < length ?xs"
      by (intro length_filter_less) auto
    also have "\<dots> \<le> nat (limit r)" by simp
    finally have "\<not> limit r \<le> int (length (filter (\<lambda>t. now - window r < t) ?xs))"
      by linarith
    then show ?thesis by (simp add: st Allow_def slice_at_def)
  qed
  from results rejected again show ?thesis by blast
qed

theorem Allow_sliding_window_witness:
  "fst (AllowSeq (NewMemoryRateLimiter 2 10) ''ip:10.0.0.7'' [0, 3, 5]) = [True, True, False]
   \<and> requests (snd (AllowSeq (NewMemoryRateLimiter 2 10) ''ip:10.0.0.7'' [0, 3, 5])) ''ip:10.0.0.7''
       = requests (snd (AllowSeq (NewMemoryRateLimiter 2 10) ''ip:10.0.0.7'' [0, 3])) ''ip:10.0.0.7''
   \<and> fst (Allow (snd (AllowSeq (NewMemoryRateLimiter 2 10) ''ip:10.0.0.7'' [0, 3, 5])) ''ip:10.0.0.7'' 11)"
proof -
  let ?r = "NewMemoryRateLimiter 2 10"
  have h1: "1 \<le> limit ?r" by (simp add: NewMemoryRateLimiter_def)
  have h2: "requests ?r ''ip:10.0.0.7'' = None" by (simp add: NewMemoryRateLimiter_def)
  have h3: "\<forall>a\<in>set [0, 3, 5]. \<forall>b\<in>set [0, 3, 5]. b - a < window ?r"
    by (simp add: NewMemoryRateLimiter_def)
  note w = Allow_sliding_window [OF h1 h2 h3]
  have w1: "fst (AllowSeq ?r ''ip:10.0.0.7'' [0, 3, 5]) = [True, True, False]"
    using w [THEN conjunct1]
    by (simp add: NewMemoryRateLimiter_def numeral_2_eq_2 del: AllowSeq.simps)
  have rej: "\<not> fst (AllowSeq ?r ''ip:10.0.0.7'' [0, 3, 5]) ! 2"
    unfolding w1 by simp
  have "requests (snd (AllowSeq ?r ''ip:10.0.0.7'' (take (Suc 2) [0, 3, 5]))) ''ip:10.0.0.7''
        = requests (snd (AllowSeq ?r ''ip:10.0.0.7'' (take 2 [0, 3, 5]))) ''ip:10.0.0.7''"
    by (rule w [THEN conjunct2, THEN conjunct1, rule_format, OF _ rej]) simp
  then have w2: "requests (snd (AllowSeq ?r ''ip:10.0.0.7'' [0, 3, 5])) ''ip:10.0.0.7''
        = requests (snd (AllowSeq ?r ''ip:10.0.0.7'' [0, 3])) ''ip:10.0.0.7''"
    by (simp add: numeral_2_eq_2 del: AllowSeq.simps)
  have w3: "fst (Allow (snd (AllowSeq ?r ''ip:10.0.0.7'' [0, 3, 5])) ''ip:10.0.0.7'' 11)"
    by (rule w [THEN conjunct2, THEN conjunct2, rule_format])
       (simp add: NewMemoryRateLimiter_def)
  from w1 w2 w3 show ?thesis by blast
qed

lemma ResetRateLimit_config [simp]: "config (ResetRateLimit m k) = config m"
  by (simp add: ResetRateLimit_def Let_def split: option.splits)

lemma ResetRateLimit_globalLimiter:
  "globalLimiter (ResetRateLimit m k) = map_option (\<lambda>g. Reset g ''global'') (globalLimiter m)"
  by (simp add: ResetRateLimit_def Let_def split: option.splits)

text \<open>
  Claim C10. Whatever key \<open>k\<close> is passed, \<open>ResetRateLimit k\<close> deletes the key
  \<open>''global''\<close> of the global limiter (its limit and window stay as configured), also
  when \<open>k\<close> names no limiter; the next global admission check therefore starts from an
  empty history: it is admitted exactly when rate limiting is disabled or the limit is
  positive.
\<close>

theorem ResetRateLimit_clears_global:
  assumes "globalLimiter m = Some g"
  shows "\<exists>g'. globalLimiter (ResetRateLimit m k) = Some g'
           \<and> requests g' ''global'' = None
           \<and> limit g' = limit g \<and> window g' = window g
           \<and> (fst (GlobalRateLimit (ResetRateLimit m k) now)
                \<longleftrightarrow> \<not> Enabled (config m) \<or> 0 < limit g)"
proof -
  let ?g' = "Reset g ''global''"
  have g': "globalLimiter (ResetRateLimit m k) = Some ?g'"
    using assms by (simp add: ResetRateLimit_globalLimiter)
  have cleared: "requests ?g' ''global'' = None" by (simp add: Reset_def)
  have same: "limit ?g' = limit g" "window ?g' = window g" by (simp_all add: Reset_def)
  have "fst (Allow ?g' ''global'' now) \<longleftrightarrow> 0 < limit g"
    using cleared same by (auto simp add: Allow_def slice_at_def Let_def)
  then have "fst (GlobalRateLimit (ResetRateLimit m k) now)
               \<longleftrightarrow> \<not> Enabled (config m) \<or> 0 < limit g"
    using g' by (auto simp add: GlobalRateLimit_def split: prod.splits)
  with g' cleared same show ?thesis by blast
qed

lemma reset_test_state_eq:
  "reset_test_state =
     \<lparr>config = reset_test_config, limiters = Map.empty,
      globalLimiter = Some \<lparr>requests = [''global'' \<mapsto> [0]], limit = 1, window = Minute\<rparr>\<rparr>"
  by (simp add: reset_test_state_def GlobalRateLimit_def NewRateLimitMiddleware_def
      reset_test_config_def NewMemoryRateLimiter_def Allow_def slice_at_def Minute_def)

theorem ResetRateLimit_clears_global_witness:
  "\<not> fst (GlobalRateLimit reset_test_state 2)
   \<and> limiters reset_test_state ''ip:10.0.0.7'' = None
   \<and> fst (GlobalRateLimit (ResetRateLimit reset_test_state ''ip:10.0.0.7'') 2)"
proof -
  let ?g = "\<lparr>requests = [''global'' \<mapsto> [0::int]], limit = 1, window = Minute\<rparr>"
  have h: "globalLimiter reset_test_state = Some ?g" by (simp add: reset_test_state_eq)
  from ResetRateLimit_clears_global [OF h, of "''ip:10.0.0.7''" 2]
  have "fst (GlobalRateLimit (ResetRateLimit reset_test_state ''ip:10.0.0.7'') 2)" by auto
  moreover have "\<not> fst (GlobalRateLimit reset_test_state 2)"
    by (simp add: reset_test_state_eq GlobalRateLimit_def reset_test_config_def Allow_def
        slice_at_def Minute_def)
  moreover have "limiters reset_test_state ''ip:10.0.0.7'' = None"
    by (simp add: reset_test_state_eq)
  ultimately show ?thesis by blast
qed

section \<open>Properties of the route matcher\<close>

lemma QuoteMeta_literal: "\<forall>c\<in>set s. \<not> special c \<Longrightarrow> QuoteMeta s = s"
  by (induction s) auto

lemma QuoteMeta_append: "QuoteMeta (s @ t) = QuoteMeta s @ QuoteMeta t"
  by (induction s) auto

lemma special_backslash: "special backslash"
  by (simp add: special_def)

lemma ReplaceAll_Nil: "old \<noteq> [] \<Longrightarrow> ReplaceAll [] old new = []"
  by (simp add: ReplaceAll.simps)

lemma ReplaceAll_skip:
  "old \<noteq> [] \<Longrightarrow> \<not> prefix old (c # s) \<Longrightarrow> ReplaceAll (c # s) old new = c # ReplaceAll s old new"
  by (subst ReplaceAll.simps) simp

lemma ReplaceAll_hit:
  "old \<noteq> [] \<Longrightarrow> ReplaceAll (old @ s) old new = new @ ReplaceAll s old new"
  by (subst ReplaceAll.simps) simp

lemma ReplaceAll_literal:
  "\<forall>c\<in>set s. \<not> special c \<Longrightarrow>
   ReplaceAll (s @ t) [backslash, CHR ''*''] new = s @ ReplaceAll t [backslash, CHR ''*''] new"
proof (induction s)
  case Nil show ?case by simp
next
  case (Cons c s)
  then have "c \<noteq> backslash" using special_backslash by auto
  then have "\<not> prefix [backslash, CHR ''*''] (c # s @ t)" by simp
  with Cons show ?case by (simp add: ReplaceAll_skip)
qed

lemma ReplaceAllParams_literal:
  "\<forall>c\<in>set s. c \<noteq> backslash \<Longrightarrow> ReplaceAllParams s = s"
  by (induction s) auto

lemma parse_literal:
  "\<forall>c\<in>set s. \<not> special c \<Longrightarrow> parse (s @ t) = map_option ((@) (map Lit s)) (parse t)"
proof (induction s)
  case Nil show ?case by (simp add: option.map_ident)
next
  case (Cons c s)
  then have ns: "\<not> special c" by simp
  then have "c \<noteq> backslash" "c \<noteq> CHR ''.''" "c \<noteq> CHR ''[''" "c \<noteq> CHR ''$''"
    by (auto simp: special_def)
  with ns Cons show ?case by (simp add: option.map_comp comp_def)
qed

lemma match_here_literal:
  "match_here (map Lit s @ items) t \<longleftrightarrow> (\<exists>rest. t = s @ rest \<and> match_here items rest)"
proof (induction s arbitrary: t)
  case Nil show ?case by simp
next
  case (Cons c s)
  show ?case by (cases t) (auto simp: Cons.IH)
qed

lemma match_here_EndText: "match_here [EndText] t \<longleftrightarrow> t = []"
  by (cases t) simp_all

lemma match_anywhere_iff:
  "match_anywhere items t \<longleftrightarrow> (\<exists>pre rest. t = pre @ rest \<and> match_here items rest)"
proof (induction t)
  case Nil show ?case by simp
next
  case (Cons x t)
  show ?case
  proof
    assume "match_anywhere items (x # t)"
    then consider "match_here items (x # t)" | "match_anywhere items t" by auto
    then show "\<exists>pre rest. x # t = pre @ rest \<and> match_here items rest"
    proof cases
      case 1
      moreover have "x # t = [] @ (x # t)" by simp
      ultimately show ?thesis by blast
    next
      case 2
      with Cons obtain pre rest where "t = pre @ rest" "match_here items rest" by auto
      then have "x # t = (x # pre) @ rest" "match_here items rest" by simp_all
      then show ?thesis by blast
    qed
  next
    assume "\<exists>pre rest. x # t = pre @ rest \<and> match_here items rest"
    then obtain pre rest where pr: "x # t = pre @ rest" "match_here items rest" by auto
    show "match_anywhere items (x # t)"
    proof (cases pre)
      case Nil
      with pr have "match_here items (x # t)" by simp
      then show ?thesis by simp
    next
      case (Cons y pre')
      with pr have "t = pre' @ rest" by simp
      with pr(2) Cons.IH show ?thesis by auto
    qed
  qed
qed

text \<open>Every expression that \<open>patternToRegex\<close> builds lies in the parsed fragment.\<close>

lemma special_star: "special (CHR ''*'')"
  by (simp add: special_def)

lemma QuoteMeta_no_star_first: "\<not> prefix ''*'' (QuoteMeta s)"
  by (cases s) (auto simp: special_star)

lemma ReplaceAll_QuoteMeta:
  "quoted (ReplaceAll (QuoteMeta s) [backslash, CHR ''*''] ''.*'')"
proof (induction s)
  case Nil
  show ?case by (simp add: ReplaceAll_Nil quoted_Nil)
next
  case (Cons c s)
  let ?R = "\<lambda>t. ReplaceAll t [backslash, CHR ''*''] ''.*''"
  consider (plain) "\<not> special c" | (star) "c = CHR ''*''"
    | (bs) "c = backslash" | (other) "special c" "c \<noteq> CHR ''*''" "c \<noteq> backslash"
    by blast
  then show ?case
  proof cases
    case plain
    then have "c \<noteq> backslash" using special_backslash by auto
    then have "?R (QuoteMeta (c # s)) = c # ?R (QuoteMeta s)"
      using plain by (simp add: ReplaceAll_skip)
    with Cons plain show ?thesis by (simp add: quoted_plain)
  next
    case star
    have "?R ([backslash, CHR ''*''] @ QuoteMeta s) = ''.*'' @ ?R (QuoteMeta s)"
      by (rule ReplaceAll_hit) simp
    with star Cons show ?thesis by (simp add: special_star quoted_star)
  next
    case bs
    have "\<not> prefix [backslash, CHR ''*''] (backslash # QuoteMeta s)"
      using QuoteMeta_no_star_first [of s] by simp
    then have "?R (QuoteMeta (c # s)) = backslash # backslash # ?R (QuoteMeta s)"
      using bs by (simp add: special_backslash ReplaceAll_skip)
    with Cons show ?thesis by (simp add: quoted_escape special_backslash)
  next
    case other
    then have "?R (QuoteMeta (c # s)) = backslash # c # ?R (QuoteMeta s)"
      by (simp add: ReplaceAll_skip)
    with Cons other show ?thesis by (simp add: quoted_escape)
  qed
qed

lemma quoted_dropWhile: "quoted s \<Longrightarrow> quoted (dropWhile nonslash s)"
proof (induction rule: quoted.induct)
  case quoted_Nil
  show ?case by (simp add: quoted.quoted_Nil)
next
  case (quoted_plain s c)
  then show ?case by (auto intro: quoted.quoted_plain)
next
  case (quoted_escape s c)
  then have "c \<noteq> CHR ''/''" by (auto simp: special_def)
  with quoted_escape show ?case by simp
next
  case (quoted_star s)
  then show ?case by simp
qed

lemma quoted_tl:
  assumes "quoted (c # s)" and "c \<noteq> backslash" and "c \<noteq> CHR ''.''"
  shows "quoted s"
  using assms by (cases rule: quoted.cases) simp_all

lemma quoted_drop_param:
  assumes "quoted s" and "prefix ''/:'' s"
  shows "quoted (drop 2 s)"
proof -
  from assms(2) obtain t where s: "s = CHR ''/'' # CHR '':'' # t" by (auto simp: prefix_def)
  from assms(1) have "quoted (CHR '':'' # t)"
    unfolding s by (rule quoted_tl) simp_all
  then have "quoted t" by (rule quoted_tl) simp_all
  then show ?thesis by (simp add: s)
qed

lemma special_quotable:
  assumes "special c"
  shows "quotable c"
proof -
  from assms have "c = backslash \<or> c = CHR ''.'' \<or> c = CHR ''+'' \<or> c = CHR ''*'' \<or> c = CHR ''?''
      \<or> c = CHR ''('' \<or> c = CHR '')'' \<or> c = CHR ''|'' \<or> c = CHR ''['' \<or> c = CHR '']''
      \<or> c = CHR ''{'' \<or> c = CHR ''}'' \<or> c = CHR ''^'' \<or> c = CHR ''$''"
    by (simp add: special_def)
  then show ?thesis
    by (elim disjE) (simp_all add: quotable_def isalnum_def)
qed

lemma parse_ReplaceAllParams:
  assumes "quoted s" and "parse t \<noteq> None"
  shows "parse (ReplaceAllParams s @ t) \<noteq> None"
  using assms(1)
proof (induction "length s" arbitrary: s rule: less_induct)
  case less
  from less.prems show ?case
  proof (cases rule: quoted.cases)
    case quoted_Nil
    with assms(2) show ?thesis by simp
  next
    case (quoted_plain s' c)
    then have c: "c \<noteq> backslash" "c \<noteq> CHR ''.''" "c \<noteq> CHR ''[''" "c \<noteq> CHR ''$''"
      by (auto simp: special_def)
    have "parse (ReplaceAllParams s' @ t) \<noteq> None"
      using less.hyps [of s'] quoted_plain by simp
    with quoted_plain c show ?thesis by auto
  next
    case (quoted_star s')
    have "parse (ReplaceAllParams s' @ t) \<noteq> None"
      using less.hyps [of s'] quoted_star by simp
    with quoted_star show ?thesis by auto
  next
    case (quoted_escape s' c)
    then have nslash: "c \<noteq> CHR ''/''" by (auto simp: special_def)
    have step: "ReplaceAllParams s = backslash # ReplaceAllParams (c # s')"
      using quoted_escape nslash by simp
    have ih: "parse (ReplaceAllParams s' @ t) \<noteq> None"
      using less.hyps [of s'] quoted_escape by simp
    show ?thesis
    proof (cases "c = backslash \<and> prefix ''/:'' s' \<and> takeWhile nonslash (drop 2 s') \<noteq> []")
      case False
      then have "ReplaceAllParams (c # s') = c # ReplaceAllParams s'" by auto
      with step ih special_quotable [OF quoted_escape(3)] show ?thesis by auto
    next
      case True
      let ?r = "dropWhile nonslash (drop 2 s')"
      have "quoted ?r"
        using quoted_escape(2) True by (intro quoted_dropWhile quoted_drop_param) simp_all
      moreover have "length ?r < length s"
        using quoted_escape(1) length_dropWhile_le [of nonslash "drop 2 s'"] by simp
      ultimately have "parse (ReplaceAllParams ?r @ t) \<noteq> None"
        using less.hyps [of ?r] by simp
      moreover have "ReplaceAllParams s = backslash # ''/[^/]+'' @ ReplaceAllParams ?r"
        using step True by simp
      moreover have "quotable (CHR ''/'')" by (simp add: quotable_def isalnum_def)
      ultimately show ?thesis by auto
    qed
  qed
qed

lemma patternToRegex_parses: "parse (patternToRegex pattern) \<noteq> None"
proof -
  let ?p3 = "ReplaceAllParams (ReplaceAll (QuoteMeta pattern) [backslash, CHR ''*''] ''.*'')"
  have "parse (?p3 @ ''$'') \<noteq> None"
    by (rule parse_ReplaceAllParams [OF ReplaceAll_QuoteMeta]) simp
  moreover have "parse (?p3 @ []) \<noteq> None"
    by (rule parse_ReplaceAllParams [OF ReplaceAll_QuoteMeta]) simp
  ultimately show ?thesis
    by (simp add: patternToRegex_def Let_def)
qed

lemma patternToRegex_literal:
  assumes "\<forall>c\<in>set lit. \<not> special c"
  shows "patternToRegex lit = lit @ ''$''"
proof -
  have q: "QuoteMeta lit = lit" using assms by (rule QuoteMeta_literal)
  have r: "ReplaceAll lit [backslash, CHR ''*''] ''.*'' = lit"
    using ReplaceAll_literal [OF assms, of "[]"] by (simp add: ReplaceAll_Nil)
  have nb: "\<forall>c\<in>set lit. c \<noteq> backslash" using assms special_backslash by auto
  have "CHR ''$'' \<notin> set lit" using assms by (auto simp: special_def)
  then have "\<not> HasSuffix lit ''$''" by (auto simp: HasSuffix_def suffix_def)
  then show ?thesis
    by (simp add: patternToRegex_def q r ReplaceAllParams_literal [OF nb])
qed

lemma ValidString_ascii: "\<forall>c\<in>set s. (of_char c :: nat) < 128 \<Longrightarrow> ValidString s"
  by (induction s) simp_all

text \<open>
  A pattern of ASCII characters, none of them quoted by \<open>QuoteMeta\<close>, matches exactly the
  paths that end with it: the expression built from it ends with \<open>$\<close> and does not begin
  with \<open>^\<close>.
\<close>

lemma matchRoutePattern_ascii_literal:
  assumes literal: "\<forall>c\<in>set lit. \<not> special c \<and> (of_char c :: nat) < 128"
    and "ValidString path"
  shows "matchRoutePattern lit path \<longleftrightarrow> suffix lit path"
proof -
  from literal have plain: "\<forall>c\<in>set lit. \<not> special c" by simp
  from literal have "\<forall>c\<in>set (lit @ ''$''). (of_char c :: nat) < 128" by simp
  then have v: "ValidString (lit @ ''$'')" by (rule ValidString_ascii)
  have c: "compile (lit @ ''$'') = Some (map Lit lit @ [EndText])"
    by (simp add: compile_def v parse_literal [OF plain])
  have "matchRoutePattern lit path \<longleftrightarrow> match_anywhere (map Lit lit @ [EndText]) path"
    by (simp add: matchRoutePattern_def MatchString_def patternToRegex_literal [OF plain] c)
  also have "\<dots> \<longleftrightarrow> (\<exists>pre. path = pre @ lit)"
    by (simp add: match_anywhere_iff match_here_literal match_here_EndText)
  finally show ?thesis by (simp add: suffix_def)
qed

text \<open>
  Claim C2: a pattern matches only the full path, not a prefix or a suffix of it, except
  for a trailing \<open>*\<close>; the route \<open>/admin\<close> does not match the path \<open>/public/admin\<close>.
  The code at that input: \<open>patternToRegex\<close> anchors the expression at the end with \<open>$\<close>
  and leaves its start open, \<open>/admin$\<close>; \<open>MatchString\<close> looks for a match anywhere in the
  path and finds one at the end of \<open>/public/admin\<close>; \<open>MatchRoute\<close> returns the route
  \<open>/admin\<close> for \<open>GET /public/admin\<close>.
\<close>

theorem admin_matches_public_admin:
  "patternToRegex ''/admin'' = ''/admin$''
   \<and> matchRoutePattern ''/admin'' ''/public/admin''
   \<and> MatchRoute admin_parser ''GET'' ''/public/admin''
       = Inr (mk_route ''/admin'' ''admin-svc'' [''GET''] False, service_config ''10.0.0.2'' 9100)"
  by code_simp

text \<open>
  Claim C1: a segment \<open>:name\<close> of a pattern stands for one path segment without slash,
  so that the route \<open>/orders/:id\<close> for \<open>GET\<close> is returned for \<open>GET /orders/77\<close>. The
  code at that input: \<open>QuoteMeta\<close> does not quote the slash, so the expression that looks
  for a quoted slash before the colon finds nothing to replace; the pattern is compiled
  with \<open>:id\<close> as literal text, matches only paths that end with the text
  \<open>/orders/:id\<close>, and \<open>MatchRoute\<close> finds no route for \<open>GET /orders/77\<close>.
\<close>

theorem orders_param_route_not_matched:
  "patternToRegex ''/orders/:id'' = ''/orders/:id$''
   \<and> \<not> matchRoutePattern ''/orders/:id'' ''/orders/77''
   \<and> matchRoutePattern ''/orders/:id'' ''/orders/:id''
   \<and> MatchRoute orders_parser ''GET'' ''/orders/77'' = Inl (NoRouteFound ''GET'' ''/orders/77'')"
  by code_simp

text \<open>A pattern that is not valid UTF-8 does not compile, and matches no path.\<close>

lemma invalid_utf8_pattern_not_compiled:
  "compile (patternToRegex [CHR ''/'', CHR 0xFF]) = None
   \<and> \<not> matchRoutePattern [CHR ''/'', CHR 0xFF] [CHR ''/'', CHR 0xFF]"
  by code_simp

section \<open>Properties of the service registry\<close>

lemma notifyWatchers_locked:
  "mutex d = WriteLocked \<Longrightarrow>
   notifyWatchers d n = (if map_of (watchers d) n = None then Some d else None)"
  by (simp add: notifyWatchers_def Discover_def RLock_def split: option.splits)

lemma Lock_Some: "Lock m = Some held \<longleftrightarrow> m = Unlocked \<and> held = WriteLocked"
  by (auto simp: Lock_def split: RWMutex.splits)

lemma Register_eq:
  "Register d a now =
     (if mutex d = Unlocked \<and> map_of (watchers d) (Name (heap d a)) = None
      then Some (d\<lparr>mutex := Unlocked,
                   heap := (heap d)(a := (heap d a)\<lparr>LastSeen := now\<rparr>),
                   services_d :=
                     AList.update (Name (heap d a))
                       (AList.update (ID_i (heap d a)) a
                          (case map_of (services_d d) (Name (heap d a)) of None \<Rightarrow> [] | Some m \<Rightarrow> m))
                       (services_d d)\<rparr>)
      else None)"
  by (cases "mutex d")
     (simp_all add: Register_def Lock_def Let_def notifyWatchers_locked)

lemma Deregister_eq:
  "Deregister d serviceID =
     (if mutex d \<noteq> Unlocked then None
      else case findInstance (services_d d) serviceID of
             None \<Rightarrow> Some (Some (InstanceNotFound serviceID), d)
           | Some serviceName \<Rightarrow>
               if map_of (watchers d) serviceName = None
               then Some (None, d\<lparr>mutex := Unlocked,
                                  services_d := AList.map_entry serviceName (AList.delete serviceID)
                                                  (services_d d)\<rparr>)
               else None)"
  by (cases "mutex d")
     (simp_all add: Deregister_def Lock_def Let_def notifyWatchers_locked split: option.splits)

lemma checkInstanceHealth_eq:
  "checkInstanceHealth d n a now =
     (if mutex d \<noteq> Unlocked then None
      else if Health (heap d a) \<noteq> HealthStatusHealthy \<and> map_of (watchers d) n \<noteq> None then None
      else Some (d\<lparr>mutex := Unlocked,
                   heap := (heap d)(a := (heap d a)\<lparr>Health := HealthStatusHealthy, LastSeen := now\<rparr>)\<rparr>))"
  by (cases "mutex d")
     (simp_all add: checkInstanceHealth_def simulateHealthCheck_def Lock_def Let_def
        notifyWatchers_locked)

lemma Watch_eq:
  "Watch d n =
     (if mutex d \<noteq> Unlocked then None
      else Some (length (case map_of (watchers d) n of None \<Rightarrow> [] | Some chans \<Rightarrow> chans),
                 d\<lparr>watchers := AList.update n
                      ((case map_of (watchers d) n of None \<Rightarrow> [] | Some chans \<Rightarrow> chans) @ [None])
                      (watchers d)\<rparr>))"
  by (cases "mutex d") (simp_all add: Watch_def Lock_def Let_def)

lemma list_all_update:
  "list_all P al \<Longrightarrow> P (k, v) \<Longrightarrow> list_all P (AList.update k v al)"
  by (induction al) auto

lemma list_all_map_entry:
  "list_all (\<lambda>e. Q (snd e)) al \<Longrightarrow> (\<And>x. Q x \<Longrightarrow> Q (f x)) \<Longrightarrow>
   list_all (\<lambda>e. Q (snd e)) (AList.map_entry k f al)"
  by (induction al) auto

lemma wf_registry_inner:
  assumes "wf_registry d" and "map_of (services_d d) n = Some m"
  shows "distinct (map fst m)"
proof -
  from assms(2) have "(n, m) \<in> set (services_d d)" by (rule map_of_SomeD)
  with assms(1) show ?thesis by (auto simp: wf_registry_def list_all_iff)
qed

lemma wf_registry_New: "wf_registry (New h)"
  by (simp add: wf_registry_def New_def)

lemma run_op_inv:
  assumes "run_op d op = Some d'" and "wf_registry d"
  shows "wf_registry d' \<and> mutex d' = Unlocked
         \<and> (\<forall>a. Name (heap d' a) = Name (heap d a))
         \<and> fst ` set (services_d d') = fst ` set (services_d d) \<union> registered_by d op"
proof (cases op)
  case (OpRegister a t)
  let ?n = "Name (heap d a)"
  let ?inner = "case map_of (services_d d) ?n of None \<Rightarrow> [] | Some m \<Rightarrow> m"
  from assms(1) OpRegister have d': "d' = d\<lparr>mutex := Unlocked,
                   heap := (heap d)(a := (heap d a)\<lparr>LastSeen := t\<rparr>),
                   services_d := AList.update ?n (AList.update (ID_i (heap d a)) a ?inner)
                       (services_d d)\<rparr>"
    by (simp add: Register_eq split: if_splits)
  have "distinct (map fst ?inner)"
    using wf_registry_inner [OF assms(2)] by (auto split: option.splits)
  then have "distinct (map fst (AList.update (ID_i (heap d a)) a ?inner))"
    by (rule distinct_update)
  with assms(2) have "wf_registry d'"
    by (simp add: d' wf_registry_def distinct_update list_all_update)
  then show ?thesis
    by (auto simp add: d' OpRegister registered_by_def dom_update)
next
  case (OpDeregister ident)
  show ?thesis
  proof (cases "findInstance (services_d d) ident")
    case None
    with assms OpDeregister show ?thesis
      by (auto simp add: Deregister_eq registered_by_def split: if_splits)
  next
    case (Some n)
    with assms(1) OpDeregister have d': "d' = d\<lparr>mutex := Unlocked,
        services_d := AList.map_entry n (AList.delete ident) (services_d d)\<rparr>"
      by (auto simp add: Deregister_eq split: if_splits)
    have "list_all (\<lambda>e. distinct (map fst (snd e)))
            (AList.map_entry n (AList.delete ident) (services_d d))"
      using assms(2) by (intro list_all_map_entry) (auto simp: wf_registry_def distinct_delete)
    with assms(2) have "wf_registry d'"
      by (simp add: d' wf_registry_def distinct_map_entry)
    then show ?thesis
      by (simp add: d' OpDeregister registered_by_def dom_map_entry)
  qed
next
  case (OpCheckHealth n a t)
  with assms(1) have d': "d' = d\<lparr>mutex := Unlocked,
       heap := (heap d)(a := (heap d a)\<lparr>Health := HealthStatusHealthy, LastSeen := t\<rparr>)\<rparr>"
    by (simp add: checkInstanceHealth_eq split: if_splits)
  with assms(2) show ?thesis
    by (simp add: OpCheckHealth registered_by_def wf_registry_def)
next
  case (OpWatch n)
  with assms show ?thesis
    by (auto simp add: Watch_eq registered_by_def wf_registry_def split: if_splits)
qed

lemma run_ops_inv:
  assumes "run_ops d ops = Some d'" and "wf_registry d" and "mutex d = Unlocked"
  shows "wf_registry d' \<and> mutex d' = Unlocked
         \<and> (\<forall>a. Name (heap d' a) = Name (heap d a))
         \<and> fst ` set (services_d d')
             = fst ` set (services_d d) \<union> {Name (heap d a) |a t. OpRegister a t \<in> set ops}"
  using assms
proof (induction ops arbitrary: d)
  case Nil
  then show ?case by simp
next
  case (Cons op ops)
  from Cons.prems(1) obtain d1 where d1: "run_op d op = Some d1" and rest: "run_ops d1 ops = Some d'"
    by (auto split: option.splits)
  note step = run_op_inv [OF d1 Cons.prems(2)]
  from step have wf1: "wf_registry d1" and un1: "mutex d1 = Unlocked" by simp_all
  note ih = Cons.IH [OF rest wf1 un1]
  have names: "\<forall>a. Name (heap d' a) = Name (heap d a)" using ih step by simp
  have "fst ` set (services_d d')
          = fst ` set (services_d d) \<union> (registered_by d op
              \<union> {Name (heap d a) |a t. OpRegister a t \<in> set ops})"
    using ih step by (simp add: Un_assoc)
  moreover have "registered_by d op \<union> {Name (heap d a) |a t. OpRegister a t \<in> set ops}
               = {Name (heap d a) |a t. OpRegister a t \<in> set (op # ops)}"
    by (cases op) (auto simp: registered_by_def)
  ultimately have "fst ` set (services_d d')
          = fst ` set (services_d d) \<union> {Name (heap d a) |a t. OpRegister a t \<in> set (op # ops)}"
    by simp
  with ih names show ?case by simp
qed

lemma Discover_unlocked:
  "mutex d = Unlocked \<Longrightarrow>
   Discover d s =
     Some (case map_of (services_d d) s of
             None \<Rightarrow> Inl (ServiceNotFound_d s)
           | Some instances \<Rightarrow>
               Inr (filter (\<lambda>a. Health (heap d a) = HealthStatusHealthy) (map snd instances)))"
  by (simp add: Discover_def RLock_def)

text \<open>
  Claim C4. In the registry reached from the empty one by any history of operations that
  all return (registrations, deregistrations, health checks, subscriptions): \<open>Discover s\<close>
  fails with "service not found" exactly when no instance was ever registered under the
  name \<open>s\<close>; otherwise it returns exactly the instances stored for \<open>s\<close> whose health is
  \<open>healthy\<close>, and the empty list, not an error, when none of them is healthy.
\<close>

theorem Discover_healthy_only:
  assumes run: "run_ops (New h) ops = Some d"
  shows "(Discover d s = Some (Inl (ServiceNotFound_d s))
            \<longleftrightarrow> (\<forall>a t. OpRegister a t \<in> set ops \<longrightarrow> Name (h a) \<noteq> s))
       \<and> ((\<exists>a t. OpRegister a t \<in> set ops \<and> Name (h a) = s)
            \<longrightarrow> (\<exists>m res. instances_of d s = Some m \<and> Discover d s = Some (Inr res)
                    \<and> set res = {a \<in> ran m. Health (heap d a) = HealthStatusHealthy}
                    \<and> ((\<forall>a\<in>ran m. Health (heap d a) \<noteq> HealthStatusHealthy) \<longrightarrow> res = [])))"
proof -
  have "wf_registry (New h)" by (rule wf_registry_New)
  moreover have "mutex (New h) = Unlocked" by (simp add: New_def)
  ultimately have inv: "wf_registry d" "mutex d = Unlocked"
    and keys: "fst ` set (services_d d) = {Name (h a) |a t. OpRegister a t \<in> set ops}"
    using run_ops_inv [OF run] by (simp_all add: New_def)
  note disc = Discover_unlocked [OF inv(2), of s]
  have never: "Discover d s = Some (Inl (ServiceNotFound_d s))"
    if "\<forall>a t. OpRegister a t \<in> set ops \<longrightarrow> Name (h a) \<noteq> s"
  proof -
    from that keys have "s \<notin> fst ` set (services_d d)" by auto
    then have "map_of (services_d d) s = None" by (simp add: map_of_eq_None_iff)
    with disc show ?thesis by simp
  qed
  have once: "\<exists>m res. instances_of d s = Some m \<and> Discover d s = Some (Inr res)
                    \<and> set res = {a \<in> ran m. Health (heap d a) = HealthStatusHealthy}
                    \<and> ((\<forall>a\<in>ran m. Health (heap d a) \<noteq> HealthStatusHealthy) \<longrightarrow> res = [])"
    if "\<exists>a t. OpRegister a t \<in> set ops \<and> Name (h a) = s"
  proof -
    from that keys have "s \<in> fst ` set (services_d d)" by auto
    then obtain insts where insts: "map_of (services_d d) s = Some insts"
      by (cases "map_of (services_d d) s") (auto simp: map_of_eq_None_iff)
    let ?res = "filter (\<lambda>a. Health (heap d a) = HealthStatusHealthy) (map snd insts)"
    have "distinct (map fst insts)" using inv(1) insts by (rule wf_registry_inner)
    then have ran: "ran (map_of insts) = snd ` set insts" by (rule ran_distinct)
    have 1: "instances_of d s = Some (map_of insts)" by (simp add: instances_of_def insts)
    have 2: "Discover d s = Some (Inr ?res)" using disc insts by simp
    have 3: "set ?res = {a \<in> ran (map_of insts). Health (heap d a) = HealthStatusHealthy}"
      by (auto simp: ran)
    have 4: "(\<forall>a\<in>ran (map_of insts). Health (heap d a) \<noteq> HealthStatusHealthy) \<longrightarrow> ?res = []"
      by (auto simp: ran filter_empty_conv)
    from 1 2 3 4 show ?thesis by blast
  qed
  have "Discover d s = Some (Inl (ServiceNotFound_d s))
          \<longleftrightarrow> (\<forall>a t. OpRegister a t \<in> set ops \<longrightarrow> Name (h a) \<noteq> s)"
  proof
    assume nf: "Discover d s = Some (Inl (ServiceNotFound_d s))"
    show "\<forall>a t. OpRegister a t \<in> set ops \<longrightarrow> Name (h a) \<noteq> s"
    proof (rule ccontr)
      assume "\<not> (\<forall>a t. OpRegister a t \<in> set ops \<longrightarrow> Name (h a) \<noteq> s)"
      then have "\<exists>a t. OpRegister a t \<in> set ops \<and> Name (h a) = s" by blast
      from once [OF this] nf show False by auto
    qed
  next
    assume "\<forall>a t. OpRegister a t \<in> set ops \<longrightarrow> Name (h a) \<noteq> s"
    then show "Discover d s = Some (Inl (ServiceNotFound_d s))" by (rule never)
  qed
  with once show ?thesis by blast
qed

lemma run_ops_test_registry:
  "run_ops (New test_heap) [OpRegister 1 100, OpRegister 2 101] = Some test_registry"
  by (simp add: Register_eq New_def test_heap_def mk_instance_def test_registry_def)

lemma run_ops_unhealthy_registry:
  "run_ops (New test_heap) [OpRegister 2 101] = Some unhealthy_registry"
  by (simp add: Register_eq New_def test_heap_def mk_instance_def unhealthy_registry_def)

theorem Discover_healthy_only_witness:
  "run_ops (New test_heap) [OpRegister 1 100, OpRegister 2 101] = Some test_registry
   \<and> Discover test_registry ''billing'' = Some (Inl (ServiceNotFound_d ''billing''))
   \<and> (\<exists>res. Discover test_registry ''test-service'' = Some (Inr res) \<and> set res = {1})
   \<and> run_ops (New test_heap) [OpRegister 2 101] = Some unhealthy_registry
   \<and> Discover unhealthy_registry ''test-service'' = Some (Inr [])"
proof -
  note t = Discover_healthy_only [OF run_ops_test_registry]
  have never: "\<forall>a t. OpRegister a t \<in> set [OpRegister 1 100, OpRegister 2 101]
                 \<longrightarrow> Name (test_heap a) \<noteq> ''billing''"
    by (simp add: test_heap_def mk_instance_def)
  from t [of "''billing''"] never
  have w1: "Discover test_registry ''billing'' = Some (Inl (ServiceNotFound_d ''billing''))"
    by blast
  have "OpRegister 1 100 \<in> set [OpRegister 1 100, OpRegister 2 101]
          \<and> Name (test_heap 1) = ''test-service''"
    by (simp add: test_heap_def mk_instance_def)
  then have once: "\<exists>a t. OpRegister a t \<in> set [OpRegister 1 100, OpRegister 2 101]
                 \<and> Name (test_heap a) = ''test-service''"
    by blast
  with t [of "''test-service''"] obtain m res where
    m: "instances_of test_registry ''test-service'' = Some m"
    and res: "Discover test_registry ''test-service'' = Some (Inr res)"
      "set res = {a \<in> ran m. Health (heap test_registry a) = HealthStatusHealthy}"
    by blast
  from m have "m = map_of [(''healthy-instance'', 1), (''unhealthy-instance'', 2)]"
    by (simp add: instances_of_def test_registry_def)
  then have "ran m = {1, 2}" by (simp add: ran_distinct insert_commute)
  then have "{a \<in> ran m. Health (heap test_registry a) = HealthStatusHealthy} = {1}"
    by (auto simp add: test_registry_def test_heap_def mk_instance_def
        HealthStatusHealthy_def HealthStatusUnhealthy_def)
  with res have w2: "\<exists>res. Discover test_registry ''test-service'' = Some (Inr res) \<and> set res = {1}"
    by simp
  note u = Discover_healthy_only [OF run_ops_unhealthy_registry, of "''test-service''"]
  have "OpRegister 2 101 \<in> set [OpRegister 2 101] \<and> Name (test_heap 2) = ''test-service''"
    by (simp add: test_heap_def mk_instance_def)
  then have "\<exists>a t. OpRegister a t \<in> set [OpRegister 2 101] \<and> Name (test_heap a) = ''test-service''"
    by blast
  with u obtain m' res' where
    m': "instances_of unhealthy_registry ''test-service'' = Some m'"
    and res': "Discover unhealthy_registry ''test-service'' = Some (Inr res')"
      "(\<forall>a\<in>ran m'. Health (heap unhealthy_registry a) \<noteq> HealthStatusHealthy) \<longrightarrow> res' = []"
    by blast
  from m' have "m' = map_of [(''unhealthy-instance'', 2)]"
    by (simp add: instances_of_def unhealthy_registry_def)
  then have "ran m' = {2}" by (simp add: ran_distinct)
  then have "\<forall>a\<in>ran m'. Health (heap unhealthy_registry a) \<noteq> HealthStatusHealthy"
    by (simp add: unhealthy_registry_def test_heap_def mk_instance_def
        HealthStatusHealthy_def HealthStatusUnhealthy_def)
  with res' have w3: "Discover unhealthy_registry ''test-service'' = Some (Inr [])" by simp
  from w1 w2 w3 run_ops_test_registry run_ops_unhealthy_registry show ?thesis by blast
qed

lemma Register_returns:
  "mutex d = Unlocked \<Longrightarrow> map_of (watchers d) (Name (heap d a)) = None \<Longrightarrow>
   \<exists>d'. Register d a now = Some d'"
  by (simp add: Register_eq)

lemma Register_blocks_with_watcher:
  "map_of (watchers d) (Name (heap d a)) \<noteq> None \<Longrightarrow> Register d a now = None"
  by (simp add: Register_eq)

lemma Deregister_blocks_with_watcher:
  "findInstance (services_d d) ident = Some n \<Longrightarrow> map_of (watchers d) n \<noteq> None \<Longrightarrow>
   Deregister d ident = None"
  by (auto simp add: Deregister_eq)

text \<open>
  Claim C7, as amended. When \<open>Register\<close> returns, the instance stored under the service
  name and id of the submitted instance is the submitted instance with its last-seen time
  stamped: its health is the health it was submitted with, which \<open>Register\<close> neither
  reads nor writes. It is healthy after registration exactly when it was submitted healthy.
\<close>

theorem Register_keeps_submitted_health:
  assumes "Register d a now = Some d'"
  shows "lookup_instance d' (Name (heap d a)) (ID_i (heap d a)) = Some ((heap d a)\<lparr>LastSeen := now\<rparr>)
       \<and> health_after_Register d a now = Some (Health (heap d a))"
proof -
  let ?n = "Name (heap d a)"
  let ?inner = "case map_of (services_d d) ?n of None \<Rightarrow> [] | Some m \<Rightarrow> m"
  from assms have d': "d' = d\<lparr>mutex := Unlocked,
                   heap := (heap d)(a := (heap d a)\<lparr>LastSeen := now\<rparr>),
                   services_d := AList.update ?n (AList.update (ID_i (heap d a)) a ?inner)
                       (services_d d)\<rparr>"
    by (simp add: Register_eq split: if_splits)
  have stored: "lookup_instance d' ?n (ID_i (heap d a)) = Some ((heap d a)\<lparr>LastSeen := now\<rparr>)"
    by (simp add: d' lookup_instance_def update_conv')
  then show ?thesis using assms by (simp add: health_after_Register_def)
qed

theorem Register_keeps_submitted_health_witness:
  "health_after_Register (New test_heap) 1 100 = Some HealthStatusHealthy
   \<and> health_after_Register (New test_heap) 2 100 = Some HealthStatusUnhealthy"
proof -
  have free: "mutex (New test_heap) = Unlocked" by (simp add: New_def)
  have none: "map_of (watchers (New test_heap)) (Name (heap (New test_heap) a)) = None" for a
    by (simp add: New_def)
  from Register_returns [OF free none] obtain d1 d2
    where "Register (New test_heap) 1 100 = Some d1" and "Register (New test_heap) 2 100 = Some d2"
    by blast
  from Register_keeps_submitted_health [OF this(1)] Register_keeps_submitted_health [OF this(2)]
  show ?thesis
    by (simp add: New_def test_heap_def mk_instance_def)
qed

text \<open>
  Claim C7, as stated, fails: an instance registered with health \<open>unhealthy\<close> is stored
  unhealthy, and an instance submitted through the administrative operation with health
  \<open>critical\<close> is stored critical, with the answer 200.
\<close>

theorem Register_unhealthy_stays_unhealthy:
  "health_after_Register (New test_heap) 2 100 = Some HealthStatusUnhealthy
   \<and> health_after_RegisterService (New test_heap)
        (mk_instance ''i-9'' ''test-service'' ''localhost'' 8082 HealthStatusCritical) 9 100
       = Some (200, Some HealthStatusCritical)
   \<and> HealthStatusUnhealthy \<noteq> HealthStatusHealthy
   \<and> HealthStatusCritical \<noteq> HealthStatusHealthy"
  by (simp add: health_after_Register_def health_after_RegisterService_def RegisterService_def
      Register_eq New_def test_heap_def mk_instance_def lookup_instance_def
      HealthStatusUnhealthy_def HealthStatusHealthy_def HealthStatusCritical_def)

text \<open>
  Claim C8: watchers are notified outside the lock, so that no subscriber can block or
  deadlock the mutation that notifies. The code at the input of the repository's watch
  test, a subscription to \<open>test-service\<close> followed by the registration of an instance of
  \<open>test-service\<close>: \<open>Register\<close> calls \<open>notifyWatchers\<close> while it holds the write lock,
  \<open>notifyWatchers\<close> finds a watcher and calls \<open>Discover\<close>, which waits for the read lock
  of the same mutex, and \<open>Register\<close> never returns. Without the subscription the same
  registration returns. The same holds for the deregistration of an instance and for a
  health check that changes the health of an instance, once the service has a watcher.
\<close>

theorem mutation_with_watcher_never_returns:
  "run_ops (New test_heap) [OpRegister 1 100] \<noteq> None
   \<and> run_ops (New test_heap) [OpWatch ''test-service''] \<noteq> None
   \<and> run_ops (New test_heap) [OpWatch ''test-service'', OpRegister 1 100] = None
   \<and> run_ops (New test_heap) [OpRegister 1 100, OpDeregister ''healthy-instance''] \<noteq> None
   \<and> run_ops (New test_heap)
         [OpRegister 1 100, OpWatch ''test-service'', OpDeregister ''healthy-instance''] = None
   \<and> run_ops (New test_heap) [OpRegister 2 100, OpCheckHealth ''test-service'' 2 130] \<noteq> None
   \<and> run_ops (New test_heap)
         [OpRegister 2 100, OpWatch ''test-service'', OpCheckHealth ''test-service'' 2 130] = None"
  by (simp add: Register_eq Watch_eq Deregister_eq checkInstanceHealth_eq New_def test_heap_def
      mk_instance_def HealthStatusHealthy_def HealthStatusUnhealthy_def)

section \<open>Properties of the proxy forwarder\<close>

lemma matchRoutes_find:
  "matchRoutes svcs rs method path =
     map_option (\<lambda>r. case svcs (Service r) of
                         None \<Rightarrow> Inl (ServiceNotFound (Service r))
                       | Some service \<Rightarrow> Inr (r, service))
       (find (\<lambda>r. matchRoutePattern (Pattern r) path \<and> matchMethod (Methods r) method) rs)"
  by (induction rs) (auto split: option.splits)

lemma find_append:
  "find P (xs @ ys) = (case find P xs of Some x \<Rightarrow> Some x | None \<Rightarrow> find P ys)"
  by (induction xs) auto

lemma matchGroups_find:
  "matchGroups svcs gs method path =
     map_option (\<lambda>r. case svcs (Service r) of
                         None \<Rightarrow> Inl (ServiceNotFound (Service r))
                       | Some service \<Rightarrow> Inr (r, service))
       (find (\<lambda>r. matchRoutePattern (Pattern r) path \<and> matchMethod (Methods r) method)
          (concat (map Routes (filter (\<lambda>g. HasPrefix path (Prefix g)) gs))))"
proof (induction gs)
  case Nil
  show ?case by simp
next
  case (Cons g gs)
  show ?case
  proof (cases "HasPrefix path (Prefix g)")
    case True
    then show ?thesis
      by (simp add: Cons.IH matchRoutes_find find_append split: option.splits)
  next
    case False
    then show ?thesis by (simp add: Cons.IH)
  qed
qed

lemma MatchRoute_first_match:
  "MatchRoute p method path =
     (case first_match p method path of
        None \<Rightarrow> Inl (NoRouteFound method path)
      | Some r \<Rightarrow>
          (case services p (Service r) of
             None \<Rightarrow> Inl (ServiceNotFound (Service r))
           | Some service \<Rightarrow> Inr (r, service)))"
  by (simp add: MatchRoute_def first_match_def candidates_def matchGroups_find matchRoutes_find
      find_append split: option.splits)

lemma MatchRoute_fails_iff:
  "(\<exists>err. MatchRoute p method path = Inl err) \<longleftrightarrow>
     (case first_match p method path of
        None \<Rightarrow> True
      | Some r \<Rightarrow> services p (Service r) = None)"
  by (auto simp add: MatchRoute_first_match split: option.splits)

text \<open>
  Claim C9, as amended. \<open>ProxyGinRequest\<close> answers 404 exactly when maintenance mode is
  off and \<open>MatchRoute\<close> fails, that is, when no route that it examines matches the method
  and path, or the first one that matches names a service that is absent from the service
  configuration. Whatever fails after \<open>MatchRoute\<close> has returned a route and its service is
  answered with another status.
\<close>

theorem ProxyGinRequest_not_found_iff:
  "(\<exists>msg. ProxyGinRequest p method path = Some (Reply StatusNotFound msg))
     \<longleftrightarrow> \<not> maintenanceMode p
          \<and> (case first_match (routeParser p) method path of
                None \<Rightarrow> True
              | Some r \<Rightarrow> services (routeParser p) (Service r) = None)"
proof (cases "maintenanceMode p")
  case True
  then show ?thesis
    by (simp add: ProxyGinRequest_def isMaintenanceMode_def StatusNotFound_def
        StatusServiceUnavailable_def)
next
  case False
  show ?thesis
  proof (cases "MatchRoute (routeParser p) method path")
    case (Inl err)
    then have "\<exists>err. MatchRoute (routeParser p) method path = Inl err" by blast
    then have "case first_match (routeParser p) method path of
                None \<Rightarrow> True
              | Some r \<Rightarrow> services (routeParser p) (Service r) = None"
      using MatchRoute_fails_iff [of "routeParser p" "method" "path"] by blast
    with False Inl show ?thesis
      by (simp add: ProxyGinRequest_def isMaintenanceMode_def)
  next
    case (Inr rs)
    then have "\<not> (\<exists>err. MatchRoute (routeParser p) method path = Inl err)" by simp
    then have no: "\<not> (case first_match (routeParser p) method path of
                None \<Rightarrow> True
              | Some r \<Rightarrow> services (routeParser p) (Service r) = None)"
      using MatchRoute_fails_iff [of "routeParser p" "method" "path"] by blast
    obtain r s where rs: "rs = (r, s)" by (cases rs)
    have "ProxyGinRequest p method path \<noteq> Some (Reply StatusNotFound msg)" for msg
      using False Inr rs
      by (auto simp add: ProxyGinRequest_def isMaintenanceMode_def buildTargetURL_def Let_def
          StatusNotFound_def StatusServiceUnavailable_def StatusInternalServerError_def
          split: option.splits sum.splits list.splits)
    with no show ?thesis by blast
  qed
qed

text \<open>
  Claim C9, as stated, fails: the route \<open>/orders/*\<close> matches \<open>GET /orders/77\<close>, its
  service is absent from the service configuration, and the answer is 404 "Route not found".
\<close>

theorem missing_service_reported_as_route_not_found:
  "matchRoutePattern ''/orders/*'' ''/orders/77''
   \<and> matchMethod [''GET''] ''GET''
   \<and> MatchRoute (routeParser missing_service_proxy) ''GET'' ''/orders/77''
       = Inl (ServiceNotFound ''order-svc'')
   \<and> ProxyGinRequest missing_service_proxy ''GET'' ''/orders/77''
       = Some (Reply StatusNotFound ''Route not found'')"
  by code_simp

theorem ProxyGinRequest_not_found_iff_witness:
  "(\<exists>msg. ProxyGinRequest missing_service_proxy ''GET'' ''/orders/77''
            = Some (Reply StatusNotFound msg))
   \<and> \<not> (\<exists>msg. ProxyGinRequest (users_proxy [users_group ''/*''] []) ''GET''
                  ''/api/v1/users/42/profile'' = Some (Reply StatusNotFound msg))"
proof -
  have m1: "first_match (routeParser missing_service_proxy) ''GET'' ''/orders/77''
              = Some (mk_route ''/orders/*'' ''order-svc'' [''GET''] False)"
    by code_simp
  have s1: "services (routeParser missing_service_proxy) ''order-svc'' = None"
    by (simp add: missing_service_proxy_def)
  have m2: "first_match (routeParser (users_proxy [users_group ''/*''] [])) ''GET''
              ''/api/v1/users/42/profile''
              = Some (mk_route ''/*'' ''user-service''
                        [''GET'', ''POST'', ''PUT'', ''DELETE'', ''PATCH''] True)"
    by code_simp
  have s2: "services (routeParser (users_proxy [users_group ''/*''] [])) ''user-service'' \<noteq> None"
    by (simp add: users_proxy_def)
  have f1: "\<not> maintenanceMode missing_service_proxy" by (simp add: missing_service_proxy_def)
  from ProxyGinRequest_not_found_iff [of missing_service_proxy "''GET''" "''/orders/77''"]
  have w1: "\<exists>msg. ProxyGinRequest missing_service_proxy ''GET'' ''/orders/77''
            = Some (Reply StatusNotFound msg)"
    using m1 s1 f1 by (simp add: mk_route_def)
  from ProxyGinRequest_not_found_iff [of "users_proxy [users_group ''/*''] []" "''GET''"
      "''/api/v1/users/42/profile''"]
  have w2: "\<not> (\<exists>msg. ProxyGinRequest (users_proxy [users_group ''/*''] []) ''GET''
                  ''/api/v1/users/42/profile'' = Some (Reply StatusNotFound msg))"
    using m2 s2 by (simp add: mk_route_def)
  from w1 w2 show ?thesis by blast
qed

lemma ProxyGinRequest_maintenance:
  "maintenanceMode p \<Longrightarrow>
   ProxyGinRequest p method path
     = Some (Reply StatusServiceUnavailable ''Service is under maintenance'')"
  by (simp add: ProxyGinRequest_def isMaintenanceMode_def)

lemma ProxyRequest_maintenance_irrelevant:
  "ProxyRequest (SetMaintenanceMode p enabled) transport req = ProxyRequest p transport req"
proof -
  have f1: "routeParser (SetMaintenanceMode p enabled) = routeParser p"
    and f2: "discovery (SetMaintenanceMode p enabled) = discovery p"
    by (simp_all add: SetMaintenanceMode_def)
  show ?thesis unfolding ProxyRequest_def f1 f2 by (rule refl)
qed

lemma TrimPrefix_eq_suffix:
  assumes "TrimPrefix (pre @ rest) pat = rest" and "pre \<noteq> []"
  shows "pat = pre"
proof -
  from assms have p: "prefix pat (pre @ rest)" and d: "drop (length pat) (pre @ rest) = rest"
    by (auto simp: TrimPrefix_def HasPrefix_def split: if_splits)
  from p obtain zs where zs: "pre @ rest = pat @ zs" by (auto simp: prefix_def)
  with d have "zs = rest" by simp
  with zs show ?thesis by simp
qed

lemma strip_prefix_never_yields_suffix:
  assumes strip: "StripPrefix r"
    and matched: "matchRoutePattern (Pattern r) ''/api/v1/users/42/profile''"
  shows "buildTargetURL inst ''/api/v1/users/42/profile'' r svc
           \<noteq> Inr \<lparr>Scheme = s, Host = h, Path = ''/42/profile''\<rparr>"
proof
  assume "buildTargetURL inst ''/api/v1/users/42/profile'' r svc
            = Inr \<lparr>Scheme = s, Host = h, Path = ''/42/profile''\<rparr>"
  with strip have "TrimPrefix (''/api/v1/users'' @ ''/42/profile'') (Pattern r) = ''/42/profile''"
    by (simp add: buildTargetURL_def)
  then have "Pattern r = ''/api/v1/users''" by (rule TrimPrefix_eq_suffix) simp
  moreover have "\<not> matchRoutePattern ''/api/v1/users'' ''/api/v1/users/42/profile''"
    by code_simp
  ultimately show False using matched by simp
qed

lemma host_port_order: "host_port ''10.0.0.1'' 9000 = ''10.0.0.1:9000''"
  by (simp add: host_port_def Itoa_def digits.simps digit_def)

lemma host_port_user: "host_port ''10.0.0.3'' 8081 = ''10.0.0.3:8081''"
  by (simp add: host_port_def Itoa_def digits.simps digit_def)

lemma Discover_backend_order: "Discover backend_registry ''order-svc'' = Some (Inr [1])"
  by (simp add: Discover_def RLock_def backend_registry_def mk_instance_def HealthStatusHealthy_def)

lemma Discover_backend_user: "Discover backend_registry ''user-service'' = Some (Inr [2])"
  by (simp add: Discover_def RLock_def backend_registry_def mk_instance_def HealthStatusHealthy_def)

lemma heap_backend:
  "heap backend_registry (Suc 0)
     = mk_instance ''order-svc-10.0.0.1'' ''order-svc'' ''10.0.0.1'' 9000 HealthStatusHealthy"
  "heap backend_registry 2
     = mk_instance ''user-service-10.0.0.3'' ''user-service'' ''10.0.0.3'' 8081 HealthStatusHealthy"
  by (simp_all add: backend_registry_def)

lemma MatchRoute_maintenance_proxy:
  "MatchRoute (routeParser maintenance_proxy) ''GET'' ''/orders/77''
     = Inr (mk_route ''/orders/*'' ''order-svc'' [''GET''] False, service_config ''10.0.0.1'' 9000)"
  by code_simp

text \<open>
  Claim C5: while maintenance mode is on, every forwarding attempt is answered 503 before
  any route is matched and without contacting a backend. \<open>ProxyGinRequest\<close> does so
  (lemma \<open>ProxyGinRequest_maintenance\<close>); \<open>ProxyRequest\<close> never reads the flag (lemma
  \<open>ProxyRequest_maintenance_irrelevant\<close>). The code with maintenance mode on and a
  request \<open>GET /orders/77\<close>: \<open>ProxyRequest\<close> matches the route, sends the request to
  the backend \<open>10.0.0.1:9000\<close> and returns the backend's answer, status 200.
\<close>

theorem ProxyRequest_ignores_maintenance_mode:
  "maintenanceMode maintenance_proxy
   \<and> ProxyGinRequest maintenance_proxy ''GET'' ''/orders/77''
       = Some (Reply StatusServiceUnavailable ''Service is under maintenance'')
   \<and> ProxyRequest maintenance_proxy echo_backend (get_request ''/orders/77'')
       = Some (\<lparr>StatusCode = 200, Headers_r = [], Body_r = ''10.0.0.1:9000/orders/77'',
                 Error_r = None\<rparr>, None)"
proof -
  have on: "maintenanceMode maintenance_proxy"
    by (simp add: maintenance_proxy_def SetMaintenanceMode_def)
  then have gin: "ProxyGinRequest maintenance_proxy ''GET'' ''/orders/77''
       = Some (Reply StatusServiceUnavailable ''Service is under maintenance'')"
    by (simp add: ProxyGinRequest_def isMaintenanceMode_def)
  have disc: "discovery maintenance_proxy = backend_registry"
    by (simp add: maintenance_proxy_def SetMaintenanceMode_def)
  have "ProxyRequest maintenance_proxy echo_backend (get_request ''/orders/77'')
       = Some (\<lparr>StatusCode = 200, Headers_r = [], Body_r = ''10.0.0.1:9000/orders/77'',
                 Error_r = None\<rparr>, None)"
    by (simp add: ProxyRequest_def get_request_def MatchRoute_maintenance_proxy disc
        Discover_backend_order heap_backend buildTargetURL_def mk_route_def mk_instance_def
        host_port_order echo_backend_def)
  with on gin show ?thesis by simp
qed

lemma MatchRoute_users_prefix_pattern:
  "MatchRoute (routeParser (users_proxy [] [mk_route ''/api/v1/users'' ''user-service'' [] True]))
      ''GET'' ''/api/v1/users/42/profile''
     = Inl (NoRouteFound ''GET'' ''/api/v1/users/42/profile'')"
  by code_simp

lemma MatchRoute_users_param_group:
  "MatchRoute (routeParser (users_proxy [users_group ''/:path''] []))
      ''GET'' ''/api/v1/users/42/profile''
     = Inl (NoRouteFound ''GET'' ''/api/v1/users/42/profile'')"
  by code_simp

lemma MatchRoute_users_wildcard_group:
  "MatchRoute (routeParser (users_proxy [users_group ''/*''] []))
      ''GET'' ''/api/v1/users/42/profile''
     = Inr (mk_route ''/*'' ''user-service'' [''GET'', ''POST'', ''PUT'', ''DELETE'', ''PATCH''] True,
            service_config ''10.0.0.3'' 8081)"
  by code_simp

text \<open>
  Claim C6: with \<open>strip_prefix\<close> set and the prefix \<open>/api/v1/users\<close>, the request for
  \<open>/api/v1/users/42/profile\<close> goes to the backend with the path \<open>/42/profile\<close>. The code
  strips the pattern of the route, not the prefix of its group, and only when the path
  begins with the pattern as literal text. With the prefix as the pattern of the route, the
  route does not match the path (the pattern is anchored at the end) and the answer is
  404; with the group of the shipped configuration (prefix \<open>/api/v1/users\<close>, route
  \<open>/:path\<close>) no route matches either; with the route \<open>/*\<close> in that group the target
  URL is built with the path of the request unchanged: \<open>ProxyRequest\<close> sends the request
  to that URL, and \<open>ProxyGinRequest\<close> builds its reverse proxy for that URL (the reverse
  proxy of the standard library then puts the path of the request after the path of its
  target, so the backend is not sent \<open>/42/profile\<close> on that way either). No pattern at
  all makes \<open>buildTargetURL\<close> give the path \<open>/42/profile\<close> for a route that matches
  (lemma \<open>strip_prefix_never_yields_suffix\<close>).
\<close>

theorem strip_prefix_does_not_strip:
  "ProxyGinRequest (users_proxy [] [mk_route ''/api/v1/users'' ''user-service'' [] True]) ''GET''
      ''/api/v1/users/42/profile''
     = Some (Reply StatusNotFound ''Route not found'')
   \<and> ProxyGinRequest (users_proxy [users_group ''/:path''] []) ''GET'' ''/api/v1/users/42/profile''
     = Some (Reply StatusNotFound ''Route not found'')
   \<and> ProxyGinRequest (users_proxy [users_group ''/*''] []) ''GET'' ''/api/v1/users/42/profile''
     = Some (ReverseProxy \<lparr>Scheme = ''http'', Host = ''10.0.0.3:8081'',
                            Path = ''/api/v1/users/42/profile''\<rparr>)
   \<and> ProxyRequest (users_proxy [users_group ''/*''] []) echo_backend
        (get_request ''/api/v1/users/42/profile'')
     = Some (\<lparr>StatusCode = 200, Headers_r = [],
               Body_r = ''10.0.0.3:8081/api/v1/users/42/profile'', Error_r = None\<rparr>, None)"
proof -
  have off: "\<not> isMaintenanceMode (users_proxy gs rs)" for gs rs
    by (simp add: isMaintenanceMode_def users_proxy_def)
  have disc: "discovery (users_proxy gs rs) = backend_registry" for gs rs
    by (simp add: users_proxy_def)
  have a: "ProxyGinRequest (users_proxy [] [mk_route ''/api/v1/users'' ''user-service'' [] True])
      ''GET'' ''/api/v1/users/42/profile'' = Some (Reply StatusNotFound ''Route not found'')"
    by (simp add: ProxyGinRequest_def off MatchRoute_users_prefix_pattern)
  have b: "ProxyGinRequest (users_proxy [users_group ''/:path''] []) ''GET''
      ''/api/v1/users/42/profile'' = Some (Reply StatusNotFound ''Route not found'')"
    by (simp add: ProxyGinRequest_def off MatchRoute_users_param_group)
  have c: "ProxyGinRequest (users_proxy [users_group ''/*''] []) ''GET'' ''/api/v1/users/42/profile''
     = Some (ReverseProxy \<lparr>Scheme = ''http'', Host = ''10.0.0.3:8081'',
                            Path = ''/api/v1/users/42/profile''\<rparr>)"
    by (simp add: ProxyGinRequest_def off disc MatchRoute_users_wildcard_group
        Discover_backend_user heap_backend buildTargetURL_def mk_route_def mk_instance_def
        host_port_user TrimPrefix_def HasPrefix_def)
  have d: "ProxyRequest (users_proxy [users_group ''/*''] []) echo_backend
        (get_request ''/api/v1/users/42/profile'')
     = Some (\<lparr>StatusCode = 200, Headers_r = [],
               Body_r = ''10.0.0.3:8081/api/v1/users/42/profile'', Error_r = None\<rparr>, None)"
    by (simp add: ProxyRequest_def get_request_def disc MatchRoute_users_wildcard_group
        Discover_backend_user heap_backend buildTargetURL_def mk_route_def mk_instance_def
        host_port_user TrimPrefix_def HasPrefix_def echo_backend_def)
  from a b c d show ?thesis by simp
qed

end
